theory Spec2Isabelle
  imports Complex_Main
begin

section \<open>Data model of the sampler\<close>

text \<open>
  Token ids are \<^verbatim>\<open>jnp.int32\<close> values. The sampler only copies and compares them; the
  one arithmetic expression on them (in \<^verbatim>\<open>mask_tokens_after_eos_ids\<close>) multiplies by
  0 or 1 and adds 0, so it cannot leave the 32-bit range and tokens are modelled as
  \<^typ>\<open>int\<close>. Buffer offsets, step counters and sizes are \<^typ>\<open>nat\<close>.
  A batch array of shape \<open>[B, L]\<close> is a list of \<open>B\<close> rows.
\<close>

text \<open>The special ids exposed by \<^verbatim>\<open>tokenizer.special_tokens\<close> (declared outside this file).\<close>

record special_tokens =
  PAD :: int
  EOS :: int
  BOS :: int

text \<open>A logit is a float; the only float value the sampler itself produces is \<open>-inf\<close>.\<close>

datatype logit = NegInf | Fin real

section \<open>Masking after the end-of-sequence id\<close>

text \<open>
  \<^verbatim>\<open>jnp.argmax\<close> over a boolean row: the index of the first maximal entry, that is the
  first \<open>True\<close>, and 0 when the row has no \<open>True\<close>.
\<close>

definition argmax_bool :: "bool list \<Rightarrow> nat" where
  "argmax_bool bs = (if True \<in> set bs then length (takeWhile Not bs) else 0)"

text \<open>
  \<^verbatim>\<open>eos_indices\<close> for one row: \<^verbatim>\<open>jnp.where(eos_exists, argmax(row == eos), shape[-1])\<close>.
\<close>

definition eos_index :: "special_tokens \<Rightarrow> int list \<Rightarrow> nat" where
  "eos_index sp row =
     (let eq = map (\<lambda>t. t = EOS sp) row;
          eos_exists = (True \<in> set eq)
      in if eos_exists then argmax_bool eq else length row)"

text \<open>
  One row of \<^verbatim>\<open>token_buffer * mask + PAD * (1 - mask)\<close> with
  \<^verbatim>\<open>mask = arange(L) <= eos_index\<close>; the boolean mask enters the arithmetic as 0 or 1.
\<close>

definition mask_row :: "special_tokens \<Rightarrow> int list \<Rightarrow> int list" where
  "mask_row sp row =
     (let e = eos_index sp row
      in map (\<lambda>j. let mask = (of_bool (j \<le> e) :: int)
                  in (row ! j) * mask + PAD sp * (1 - mask)) [0..<length row])"

definition mask_tokens_after_eos_ids :: "special_tokens \<Rightarrow> int list list \<Rightarrow> int list list" where
  "mask_tokens_after_eos_ids sp token_buffer = map (mask_row sp) token_buffer"

section \<open>Collaborators and sampling state\<close>

text \<open>
  The sampler object. The transformer, the tokenizer, \<^verbatim>\<open>build_positions_from_mask\<close> and
  \<^verbatim>\<open>jax.random.split\<close> are declared outside this file and are taken as parameters:
  \<open>'c\<close> is the type of the attention cache and \<open>'r\<close> the type of a PRNG key.
  \<open>transformer_apply\<close> is \<^verbatim>\<open>self.transformer.apply({'params': params}, ...)\<close> with the
  weights fixed; it returns \<^verbatim>\<open>(out.logits, out.cache)\<close>, the logits of shape \<open>[B, 1, V]\<close>.
  \<open>sampler_rng\<close> is the field \<^verbatim>\<open>self._rng\<close>.
\<close>

record ('c, 'r) sampler =
  special_tokens :: special_tokens
  encode :: "string \<Rightarrow> int list"
  decode :: "int list \<Rightarrow> string"
  cache_length :: nat
  num_embed :: nat
  init_cache :: "nat \<Rightarrow> 'c"
  transformer_apply ::
    "int list list \<Rightarrow> int list list \<Rightarrow> 'c \<Rightarrow> bool list list list \<Rightarrow> logit list list list \<times> 'c"
  build_positions_from_mask :: "bool list list \<Rightarrow> int list list"
  rng_split :: "'r \<Rightarrow> 'r \<times> 'r"
  sampler_rng :: 'r

text \<open>
  \<^verbatim>\<open>sampling.get_next_tokens(logits, rng=curr_rng)\<close>: from logits \<open>[B, 1, V]\<close> and a key to
  token ids of shape \<open>[B, 1]\<close>.
\<close>

type_synonym 'r sampling_method = "logit list list list \<Rightarrow> 'r \<Rightarrow> int list list"

text \<open>
  \<^verbatim>\<open>_SamplingState\<close>. The field \<^verbatim>\<open>done\<close> is named \<open>done_flags\<close> here.
  \<^verbatim>\<open>decoding_step\<close> is a \<^verbatim>\<open>jnp.int32\<close> that the loop keeps below
  \<^verbatim>\<open>total_sampling_steps\<close>; both are natural numbers in the model.
\<close>

record ('c, 'r) sampling_state =
  decoding_step :: nat
  num_input_tokens :: "int list"
  token_buffer :: "int list list"
  positions :: "int list list"
  cache :: 'c
  done_flags :: "bool list"
  total_sampling_steps :: nat
  logits_buffer :: "logit list list list option"
  forbidden_token_ids :: "int list option"
  rng :: 'r

record sampler_output =
  text_out :: "string list"
  logits_out :: "logit list list list"
  tokens_out :: "int list list"

datatype error = ForbiddenTokenError | EmptyBatchError | ShapeError | NoLogitsError

section \<open>Array primitives\<close>

text \<open>
  Reading a column of a \<open>[B, L]\<close> array at a dynamic index: JAX clamps an index past the
  end to the last slot. Writing with \<^verbatim>\<open>.at[...].set\<close> drops an update past the end,
  which is what \<open>xs[i := v]\<close> does.
\<close>

definition clip_index :: "nat \<Rightarrow> nat \<Rightarrow> nat" where
  "clip_index n i = min i (n - 1)"

definition column :: "'a list list \<Rightarrow> nat \<Rightarrow> 'a list" where
  "column a j = map (\<lambda>row. row ! clip_index (length row) j) a"

text \<open>Python's \<^verbatim>\<open>xs[start:stop]\<close> for non-negative bounds.\<close>

definition slice :: "nat \<Rightarrow> nat \<Rightarrow> 'a list \<Rightarrow> 'a list" where
  "slice start stop xs = drop start (take stop xs)"

text \<open>
  An index of a scatter into an axis of size \<open>n\<close>: a negative index counts from the end,
  and an index outside the axis selects nothing.
\<close>

definition scatter_index :: "nat \<Rightarrow> int \<Rightarrow> nat option" where
  "scatter_index n i =
     (let j = (if i < 0 then i + int n else i)
      in if 0 \<le> j \<and> j < int n then Some (nat j) else None)"

text \<open>\<^verbatim>\<open>logits.at[:, :, ids].set(-jnp.inf)\<close>, on one vocabulary row and on the whole array.\<close>

definition forbid_row :: "int list \<Rightarrow> logit list \<Rightarrow> logit list" where
  "forbid_row ids v =
     fold (\<lambda>i w. case scatter_index (length w) i of None \<Rightarrow> w | Some k \<Rightarrow> w[k := NegInf]) ids v"

definition set_forbidden :: "int list \<Rightarrow> logit list list list \<Rightarrow> logit list list list" where
  "set_forbidden ids logits = map (map (forbid_row ids)) logits"

section \<open>Attention mask\<close>

definition compute_attention_masks :: "nat \<Rightarrow> nat \<Rightarrow> bool list list \<Rightarrow> bool list list list" where
  "compute_attention_masks time_step seq_len input_mask =
     map (\<lambda>row.
        let causal_mask = map (\<lambda>j. j \<le> time_step) [0..<seq_len];
            max_seq_len = min (length row) seq_len;
            start = min (time_step + 1 - seq_len) (length row - max_seq_len);
            sliced = take max_seq_len (drop start row);
            padded = sliced @ replicate (seq_len - max_seq_len) True
        in [map2 (\<and>) causal_mask padded]) input_mask"

section \<open>One decoding step\<close>

text \<open>
  Lines 125 to 147 of \<^verbatim>\<open>_sample_step\<close>: the forward pass and the forbidden-token masking.
  The result is the logits handed to the sampling method and the new cache.
\<close>

definition step_logits ::
  "('c, 'r) sampler \<Rightarrow> ('c, 'r) sampling_state \<Rightarrow> logit list list list \<times> 'c" where
  "step_logits env st =
     (let d = decoding_step st;
          last_token = column (token_buffer st) d;
          input_mask = map (map (\<lambda>t. t \<noteq> PAD (special_tokens env))) (token_buffer st);
          attention_mask = compute_attention_masks d (cache_length env) input_mask;
          step_positions = map (\<lambda>p. [p]) (column (positions st) d);
          last_token = map (\<lambda>t. [t]) last_token;
          (logits, new_cache) =
             transformer_apply env last_token step_positions (cache st) attention_mask;
          logits = (case forbidden_token_ids st of
                      None \<Rightarrow> logits
                    | Some ids \<Rightarrow> if ids \<noteq> [] then set_forbidden ids logits else logits)
      in (logits, new_cache))"

text \<open>
  \<^verbatim>\<open>_sample_step\<close>. Every per-sequence array operation ranges over the
  \<^verbatim>\<open>batch_size\<close> rows of the token buffer.
\<close>

definition sample_step ::
  "('c, 'r) sampler \<Rightarrow> 'r sampling_method \<Rightarrow> ('c, 'r) sampling_state \<Rightarrow> ('c, 'r) sampling_state" where
  "sample_step env sampling st =
     (let batch_size = length (token_buffer st);
          d = decoding_step st;
          (logits, new_cache) = step_logits env st;
          (next_rng, curr_rng) = rng_split env (rng st);
          next_token_candidate = map (\<lambda>r. r ! 0) (sampling logits curr_rng);
          next_token_candidate =
            map (\<lambda>i. if int d < num_input_tokens st ! i - 1
                      then column (token_buffer st) (d + 1) ! i
                      else next_token_candidate ! i) [0..<batch_size];
          new_token_buffer =
            map (\<lambda>i. (token_buffer st ! i)[d + 1 := next_token_candidate ! i]) [0..<batch_size];
          new_logits_buffer =
            (case logits_buffer st of
               None \<Rightarrow> None
             | Some lb \<Rightarrow> Some (map (\<lambda>i. (lb ! i)[d + 1 := logits ! i ! 0]) [0..<batch_size]));
          new_done =
            map (\<lambda>i. done_flags st ! i
                      \<or> column new_token_buffer (d + 1) ! i = EOS (special_tokens env))
                [0..<batch_size]
      in \<lparr>decoding_step = d + 1,
          num_input_tokens = num_input_tokens st,
          token_buffer = new_token_buffer,
          positions = positions st,
          cache = new_cache,
          done_flags = new_done,
          total_sampling_steps = total_sampling_steps st,
          logits_buffer = new_logits_buffer,
          forbidden_token_ids = forbidden_token_ids st,
          rng = next_rng\<rparr>)"

section \<open>Initial state\<close>

text \<open>
  \<^verbatim>\<open>token_buffer.at[i, :num_tokens].set(input_ids)\<close> raises a shape error when the prompt
  is longer than the buffer row; otherwise the prompt is written left-aligned.
\<close>

definition init_sample_state ::
  "('c, 'r) sampler \<Rightarrow> int list list \<Rightarrow> nat \<Rightarrow> bool \<Rightarrow> int list option
     \<Rightarrow> error + ('c, 'r) sampling_state" where
  "init_sample_state env all_input_ids total_steps include_logits forbidden =
     (let bsz = length all_input_ids;
          num_tokens = map length all_input_ids;
          buffer_size = total_steps + 1;
          pad = PAD (special_tokens env)
      in if list_ex (\<lambda>input_ids. buffer_size < length input_ids) all_input_ids
         then Inl ShapeError
         else
           let buffer = map (\<lambda>input_ids. input_ids @ replicate (buffer_size - length input_ids) pad)
                          all_input_ids;
               input_mask =
                 map (\<lambda>input_ids. map (\<lambda>t. t \<noteq> pad) input_ids
                                    @ replicate (buffer_size - length input_ids) True)
                   all_input_ids;
               pos = build_positions_from_mask env input_mask;
               dn = replicate bsz False;
               lb = (if include_logits
                     then Some (replicate bsz (replicate buffer_size
                                  (replicate (num_embed env) (Fin 0))))
                     else None)
           in Inr \<lparr>decoding_step = 0,
                   num_input_tokens = map int num_tokens,
                   token_buffer = buffer,
                   positions = pos,
                   cache = init_cache env bsz,
                   done_flags = dn,
                   total_sampling_steps = total_steps,
                   logits_buffer = lb,
                   forbidden_token_ids = forbidden,
                   rng = sampler_rng env\<rparr>)"

definition tokenize :: "('c, 'r) sampler \<Rightarrow> string \<Rightarrow> int list" where
  "tokenize env input_string = BOS (special_tokens env) # encode env input_string"

section \<open>The decoding loop\<close>

definition cond_fn :: "('c, 'r) sampling_state \<Rightarrow> bool" where
  "cond_fn st =
     (decoding_step st < total_sampling_steps st \<and> True \<in> set (map Not (done_flags st)))"

function sample_fn ::
  "('c, 'r) sampler \<Rightarrow> 'r sampling_method \<Rightarrow> ('c, 'r) sampling_state \<Rightarrow> ('c, 'r) sampling_state" where
  "sample_fn env sampling st =
     (if cond_fn st then sample_fn env sampling (sample_step env sampling st) else st)"
  by pat_completeness auto
termination
  by (relation "measure (\<lambda>(env, sampling, st). total_sampling_steps st - decoding_step st)")
     (auto simp: cond_fn_def sample_step_def Let_def split_def)

declare sample_fn.simps [simp del]

section \<open>The call\<close>

text \<open>
  The calls that \<^verbatim>\<open>__call__\<close> makes, in the order it makes them: \<open>Encode\<close> is
  \<^verbatim>\<open>self.tokenizer.encode\<close> on a forbidden token, \<open>Tokenize\<close> is \<^verbatim>\<open>self.tokenize\<close>
  on a prompt, \<open>InitSampleState\<close> is \<^verbatim>\<open>self.init_sample_state\<close>, \<open>SampleFn\<close> is
  \<^verbatim>\<open>self._compiled_sample_fn\<close> (the only place where the transformer runs) and \<open>Decode\<close>
  is \<^verbatim>\<open>self.tokenizer.decode\<close>.
\<close>

datatype event =
  Encode string | Tokenize string | InitSampleState | SampleFn | Decode "int list"

text \<open>Lines 327 to 334: the loop over the forbidden tokens, with its accumulator.\<close>

fun forbidden_ids_loop ::
  "('c, 'r) sampler \<Rightarrow> string list \<Rightarrow> int list \<Rightarrow> event list \<times> (error + int list)" where
  "forbidden_ids_loop env [] acc = ([], Inr acc)"
| "forbidden_ids_loop env (token # rest) acc =
     (let token_id = encode env token
      in if length token_id \<noteq> 1 then ([Encode token], Inl ForbiddenTokenError)
         else (case forbidden_ids_loop env rest (acc @ token_id) of
                 (evs, r) \<Rightarrow> (Encode token # evs, r)))"

text \<open>Lines 325 to 335.\<close>

definition forbidden_ids_of ::
  "('c, 'r) sampler \<Rightarrow> string list option \<Rightarrow> event list \<times> (error + int list option)" where
  "forbidden_ids_of env forbidden_tokens =
     (case forbidden_tokens of
        None \<Rightarrow> ([], Inr None)
      | Some toks \<Rightarrow>
          (case forbidden_ids_loop env toks [] of
             (evs, Inl e) \<Rightarrow> (evs, Inl e)
           | (evs, Inr ids) \<Rightarrow> (evs, Inr (Some ids))))"

text \<open>Lines 354 to 368: the slices of the masked token buffer and of the logits buffer.\<close>

definition start_idx :: "bool \<Rightarrow> int \<Rightarrow> nat" where
  "start_idx echo num_tokens = (if echo then 0 else nat num_tokens)"

definition extract_tokens :: "bool \<Rightarrow> nat \<Rightarrow> int list list \<Rightarrow> int list \<Rightarrow> int list list" where
  "extract_tokens echo total_steps masked_token_buffer num_tokens =
     map (\<lambda>(row, n). slice (start_idx echo n) total_steps row)
       (zip masked_token_buffer num_tokens)"

text \<open>
  The logits are read as \<^verbatim>\<open>sampling_state.logits_buffer[i]\<close> inside the loop over the
  sequences: with no logits buffer the first iteration raises.
\<close>

definition extract_logits ::
  "bool \<Rightarrow> nat \<Rightarrow> nat \<Rightarrow> int list \<Rightarrow> logit list list list option
     \<Rightarrow> error + logit list list list" where
  "extract_logits echo total_steps n_rows num_tokens lbo =
     (case lbo of
        None \<Rightarrow> if min n_rows (length num_tokens) = 0 then Inr [] else Inl NoLogitsError
      | Some lb \<Rightarrow>
          Inr (map (\<lambda>i. slice (start_idx echo (num_tokens ! i)) total_steps (lb ! i))
                 [0..<min n_rows (length num_tokens)]))"

text \<open>
  \<^verbatim>\<open>__call__\<close>. The result holds the calls made and either the error raised or the
  output together with the new value of \<^verbatim>\<open>self._rng\<close>. \<^verbatim>\<open>max\<close> over no prompt raises.
  \<^verbatim>\<open>total_generation_steps\<close> is a number of steps, a natural number here.
\<close>

definition call ::
  "('c, 'r) sampler \<Rightarrow> string list \<Rightarrow> nat \<Rightarrow> bool \<Rightarrow> bool \<Rightarrow> string list option
     \<Rightarrow> 'r sampling_method \<Rightarrow> event list \<times> (error + sampler_output \<times> 'r)" where
  "call env input_strings total_generation_steps echo return_logits forbidden_tokens sampling =
     (case forbidden_ids_of env forbidden_tokens of
        (ev1, Inl e) \<Rightarrow> (ev1, Inl e)
      | (ev1, Inr forbidden) \<Rightarrow>
          let all_input_ids = map (tokenize env) input_strings;
              ev2 = ev1 @ map Tokenize input_strings
          in if all_input_ids = [] then (ev2, Inl EmptyBatchError)
             else
               let max_input_length = Max (set (map length all_input_ids));
                   total_steps = max_input_length + total_generation_steps;
                   ev3 = ev2 @ [InitSampleState]
               in case init_sample_state env all_input_ids total_steps return_logits forbidden of
                    Inl e \<Rightarrow> (ev3, Inl e)
                  | Inr initial_sampling_state \<Rightarrow>
                      let sampling_state = sample_fn env sampling initial_sampling_state;
                          masked_token_buffer =
                            mask_tokens_after_eos_ids (special_tokens env)
                              (token_buffer sampling_state);
                          out_tokens =
                            extract_tokens echo total_steps masked_token_buffer
                              (num_input_tokens sampling_state);
                          decoded_outputs = map (decode env) out_tokens
                      in case (if return_logits
                               then extract_logits echo total_steps (length masked_token_buffer)
                                      (num_input_tokens sampling_state)
                                      (logits_buffer sampling_state)
                               else Inr []) of
                           Inl e \<Rightarrow> (ev3 @ [SampleFn], Inl e)
                         | Inr out_logits \<Rightarrow>
                             (ev3 @ [SampleFn] @ map Decode out_tokens,
                              Inr (\<lparr>text_out = decoded_outputs,
                                     logits_out = out_logits,
                                     tokens_out = out_tokens\<rparr>,
                                   rng sampling_state)))"

text \<open>
  The token lists that \<^verbatim>\<open>__call__\<close> returns, from the state the loop returned
  (lines 350 to 363).
\<close>

definition output_tokens ::
  "('c, 'r) sampler \<Rightarrow> bool \<Rightarrow> nat \<Rightarrow> ('c, 'r) sampling_state \<Rightarrow> int list list" where
  "output_tokens env echo total_steps final =
     extract_tokens echo total_steps
       (mask_tokens_after_eos_ids (special_tokens env) (token_buffer final))
       (num_input_tokens final)"

text \<open>
  The candidates proposed by the sampling method at a state (lines 150 to 152), before
  the prompt-replay override.
\<close>

definition sampled_candidates ::
  "('c, 'r) sampler \<Rightarrow> 'r sampling_method \<Rightarrow> ('c, 'r) sampling_state \<Rightarrow> int list" where
  "sampled_candidates env sampling st =
     map (\<lambda>r. r ! 0) (sampling (fst (step_logits env st)) (snd (rng_split env (rng st))))"

text \<open>
  The token written for sequence \<open>i\<close> (lines 154 to 158): the next prompt token while
  the step is inside the prompt, the candidate otherwise.
\<close>

definition next_token ::
  "('c, 'r) sampler \<Rightarrow> 'r sampling_method \<Rightarrow> ('c, 'r) sampling_state \<Rightarrow> nat \<Rightarrow> int" where
  "next_token env sampling st i =
     (if int (decoding_step st) < num_input_tokens st ! i - 1
      then column (token_buffer st) (decoding_step st + 1) ! i
      else sampled_candidates env sampling st ! i)"

text \<open>
  The fields of a state that decide the tokens: step counter, token buffer, prompt
  lengths, done flags and step budget.
\<close>

definition token_view ::
  "('c, 'r) sampling_state \<Rightarrow> nat \<times> int list list \<times> int list \<times> bool list \<times> nat" where
  "token_view st =
     (decoding_step st, token_buffer st, num_input_tokens st, done_flags st,
      total_sampling_steps st)"

text \<open>A small tokenizer and model on which the definitions can be run.\<close>

definition example_special_tokens :: special_tokens where
  "example_special_tokens = \<lparr>PAD = 0, EOS = 1, BOS = 2\<rparr>"

definition byte_sampler :: "special_tokens \<Rightarrow> (nat, nat) sampler" where
  "byte_sampler sp =
     \<lparr>special_tokens = sp,
      encode = map (\<lambda>c. int (of_char c :: nat)),
      decode = map (\<lambda>t. char_of (nat t)),
      cache_length = 4,
      num_embed = 128,
      init_cache = (\<lambda>bsz. 0),
      transformer_apply = (\<lambda>last_token pos c mask.
         (map (\<lambda>t. [replicate 128 (Fin 0)]) last_token, Suc c)),
      build_positions_from_mask = map (\<lambda>row. map int [0..<length row]),
      rng_split = (\<lambda>r. (Suc r, r)),
      sampler_rng = 0\<rparr>"

definition constant_sampling :: "int \<Rightarrow> nat sampling_method" where
  "constant_sampling t logits r = map (\<lambda>row. [t]) logits"

text \<open>
  A sampling method that reads the token to return from its key; with the keys of
  \<open>byte_sampler\<close> the key at a step is the number of the step.
\<close>

definition scripted_sampling :: "(nat \<Rightarrow> int) \<Rightarrow> nat sampling_method" where
  "scripted_sampling script logits r = map (\<lambda>row. [script r]) logits"

text \<open>
  The state that \<^verbatim>\<open>init_sample_state\<close> builds for the single prompt \<open>[2, 72, 101]\<close>
  and six sampling steps.
\<close>

definition example_state :: "(nat, nat) sampling_state" where
  "example_state =
     \<lparr>decoding_step = 0,
      num_input_tokens = [3],
      token_buffer = [[2, 72, 101, 0, 0, 0, 0]],
      positions = [[0, 1, 2, 3, 4, 5, 6]],
      cache = 0,
      done_flags = [False],
      total_sampling_steps = 6,
      logits_buffer = None,
      forbidden_token_ids = None,
      rng = 0\<rparr>"

text \<open>
  The state two steps later, at the first generation step, when id 5 is forbidden.
\<close>

definition example_forbidden_state :: "(nat, nat) sampling_state" where
  "example_forbidden_state =
     example_state\<lparr>decoding_step := 2, cache := 2, forbidden_token_ids := Some [5], rng := 2\<rparr>"

section \<open>Properties of the masking\<close>

lemma argmax_bool_first:
  assumes "True \<in> set bs"
  shows "argmax_bool bs < length bs" and "bs ! argmax_bool bs"
    and "\<forall>j < argmax_bool bs. \<not> bs ! j"
proof -
  have eq: "argmax_bool bs = length (takeWhile Not bs)"
    using assms by (simp add: argmax_bool_def)
  have "takeWhile Not bs \<noteq> bs"
    using assms by (metis set_takeWhileD)
  then show lt: "argmax_bool bs < length bs"
    unfolding eq by (metis length_takeWhile_le le_neq_implies_less takeWhile_eq_all_conv
        takeWhile_eq_take take_all_iff order_refl)
  show "bs ! argmax_bool bs"
    using lt nth_length_takeWhile [of Not bs] unfolding eq by simp
  show "\<forall>j < argmax_bool bs. \<not> bs ! j"
    unfolding eq using takeWhile_nth [of _ Not bs] nth_mem set_takeWhileD
    by (metis)
qed

lemma eos_index_le_iff:
  assumes "j < length row"
  shows "(j \<le> eos_index sp row) = (\<forall>e<j. row ! e \<noteq> EOS sp)"
proof (cases "True \<in> set (map (\<lambda>t. t = EOS sp) row)")
  case True
  let ?eq = "map (\<lambda>t. t = EOS sp) row"
  have e: "eos_index sp row = argmax_bool ?eq"
    using True by (simp add: eos_index_def)
  note f = argmax_bool_first [OF True]
  have lt: "argmax_bool ?eq < length row" using f(1) by simp
  have at: "row ! argmax_bool ?eq = EOS sp" using f(2) lt by simp
  have before: "\<And>k. k < argmax_bool ?eq \<Longrightarrow> row ! k \<noteq> EOS sp"
    using f(3) lt by simp
  show ?thesis
  proof
    assume "j \<le> eos_index sp row"
    then show "\<forall>e<j. row ! e \<noteq> EOS sp" using before e by simp
  next
    assume a: "\<forall>e<j. row ! e \<noteq> EOS sp"
    show "j \<le> eos_index sp row"
    proof (rule ccontr)
      assume "\<not> j \<le> eos_index sp row"
      then have "argmax_bool ?eq < j" using e by simp
      with a at show False by blast
    qed
  qed
next
  case False
  then have e: "eos_index sp row = length row" by (simp add: eos_index_def)
  have "\<And>k. k < length row \<Longrightarrow> row ! k \<noteq> EOS sp"
    using False by (auto simp: in_set_conv_nth)
  then show ?thesis using assms e by simp
qed

lemma length_mask_row: "length (mask_row sp row) = length row"
  by (simp add: mask_row_def Let_def)

lemma mask_row_nth:
  assumes "j < length row"
  shows "mask_row sp row ! j = (if \<exists>e<j. row ! e = EOS sp then PAD sp else row ! j)"
  using assms eos_index_le_iff [OF assms, of sp]
  by (auto simp: mask_row_def Let_def)

lemma mask_row_no_eos:
  assumes "EOS sp \<notin> set row"
  shows "mask_row sp row = row"
proof (rule nth_equalityI)
  show "length (mask_row sp row) = length row" by (rule length_mask_row)
next
  fix j assume "j < length (mask_row sp row)"
  then have j: "j < length row" by (simp add: length_mask_row)
  have "\<not> (\<exists>e<j. row ! e = EOS sp)"
    using assms j by (metis nth_mem order_less_trans)
  then show "mask_row sp row ! j = row ! j" using j by (auto simp: mask_row_nth)
qed

text \<open>
  Claim C1, as the code has it. In every row of the buffer, a slot is overwritten with
  PAD exactly when an EOS id occurs strictly before it; every other slot, the slot of the
  first EOS included, keeps its token. The shape of the buffer is kept, and a row without
  EOS is returned untouched.
\<close>

theorem mask_tokens_after_eos_ids_spec:
  assumes "i < length buf" and "j < length (buf ! i)"
  shows "length (mask_tokens_after_eos_ids sp buf) = length buf
       \<and> length (mask_tokens_after_eos_ids sp buf ! i) = length (buf ! i)
       \<and> mask_tokens_after_eos_ids sp buf ! i ! j =
           (if \<exists>e<j. buf ! i ! e = EOS sp then PAD sp else buf ! i ! j)
       \<and> (EOS sp \<notin> set (buf ! i)
            \<longrightarrow> mask_tokens_after_eos_ids sp buf ! i = buf ! i)"
  using assms
  by (simp add: mask_tokens_after_eos_ids_def length_mask_row mask_row_nth mask_row_no_eos)

text \<open>
  A run of the characterisation: in the row \<open>[2, 7, 1, 9, 1, 4]\<close> with EOS = 1 and PAD = 0,
  slot 3 follows the first EOS and becomes PAD, slot 2 (the EOS) is kept, and the row
  \<open>[2, 7, 8]\<close> without EOS is returned as it is.
\<close>

theorem mask_tokens_after_eos_ids_spec_witness:
  "mask_tokens_after_eos_ids example_special_tokens [[2, 7, 1, 9, 1, 4], [2, 7, 8]] ! 0 ! 3 = 0
   \<and> mask_tokens_after_eos_ids example_special_tokens [[2, 7, 1, 9, 1, 4], [2, 7, 8]] ! 0 ! 2 = 1
   \<and> mask_tokens_after_eos_ids example_special_tokens [[2, 7, 1, 9, 1, 4], [2, 7, 8]] ! 1 = [2, 7, 8]"
proof -
  let ?b = "[[2, 7, 1, 9, 1, 4], [2, 7, 8 :: int]]"
  have e: "\<exists>e<3. ?b ! 0 ! e = EOS example_special_tokens"
    by (rule exI [of _ 2]) (simp add: example_special_tokens_def)
  have n: "\<not> (\<exists>e<2. ?b ! 0 ! e = EOS example_special_tokens)"
  proof
    assume "\<exists>e<2. ?b ! 0 ! e = EOS example_special_tokens"
    then obtain e :: nat where "e < 2" and h: "?b ! 0 ! e = EOS example_special_tokens"
      by blast
    then have "e = 0 \<or> e = 1" by linarith
    with h show False by (auto simp: example_special_tokens_def)
  qed
  have a: "mask_tokens_after_eos_ids example_special_tokens ?b ! 0 ! 3 = 0"
    using mask_tokens_after_eos_ids_spec [of 0 ?b 3 example_special_tokens] e
    by (simp add: example_special_tokens_def)
  have b: "mask_tokens_after_eos_ids example_special_tokens ?b ! 0 ! 2 = 1"
    using mask_tokens_after_eos_ids_spec [of 0 ?b 2 example_special_tokens] n
    by (simp add: example_special_tokens_def)
  have c: "mask_tokens_after_eos_ids example_special_tokens ?b ! 1 = [2, 7, 8]"
    using mask_tokens_after_eos_ids_spec [of 1 ?b 0 example_special_tokens]
    by (simp add: example_special_tokens_def)
  show ?thesis using a b c by simp
qed

text \<open>
  Claim C1 as stated asks that the slot of the first EOS itself be overwritten with PAD.
  With EOS = 1 and PAD = 0 the row \<open>[2, 7, 1, 9]\<close> has its first EOS in slot 2, and the
  masked row still holds EOS there.
\<close>

theorem eos_position_overwritten_counterexample:
  "[[2, 7, 1, 9]] ! 0 ! 2 = EOS example_special_tokens
   \<and> mask_tokens_after_eos_ids example_special_tokens [[2, 7, 1, 9]] ! 0 ! 2
       \<noteq> PAD example_special_tokens"
  by code_simp

section \<open>Properties of a step and of the loop\<close>

lemma sample_step_fields:
  "decoding_step (sample_step env sampling st) = decoding_step st + 1"
  "num_input_tokens (sample_step env sampling st) = num_input_tokens st"
  "positions (sample_step env sampling st) = positions st"
  "total_sampling_steps (sample_step env sampling st) = total_sampling_steps st"
  "forbidden_token_ids (sample_step env sampling st) = forbidden_token_ids st"
  by (simp_all add: sample_step_def Let_def split_def)

lemma token_buffer_sample_step:
  "token_buffer (sample_step env sampling st) =
     map (\<lambda>i. (token_buffer st ! i)[decoding_step st + 1 := next_token env sampling st i])
       [0..<length (token_buffer st)]"
  by (simp add: sample_step_def Let_def split_def sampled_candidates_def next_token_def)

lemma done_flags_sample_step:
  "done_flags (sample_step env sampling st) =
     map (\<lambda>i. done_flags st ! i
               \<or> column (token_buffer (sample_step env sampling st)) (decoding_step st + 1) ! i
                   = EOS (special_tokens env))
       [0..<length (token_buffer st)]"
  by (simp add: sample_step_def Let_def split_def)

lemma length_token_buffer_sample_step:
  "length (token_buffer (sample_step env sampling st)) = length (token_buffer st)"
  by (simp add: token_buffer_sample_step)

lemma length_done_flags_sample_step:
  "length (done_flags (sample_step env sampling st)) = length (token_buffer st)"
  by (simp add: done_flags_sample_step)

lemma funpow_fields:
  "decoding_step ((sample_step env sampling ^^ k) st) = decoding_step st + k"
  "num_input_tokens ((sample_step env sampling ^^ k) st) = num_input_tokens st"
  "positions ((sample_step env sampling ^^ k) st) = positions st"
  "total_sampling_steps ((sample_step env sampling ^^ k) st) = total_sampling_steps st"
  "forbidden_token_ids ((sample_step env sampling ^^ k) st) = forbidden_token_ids st"
  "length (token_buffer ((sample_step env sampling ^^ k) st)) = length (token_buffer st)"
  by (induction k) (simp_all add: sample_step_fields length_token_buffer_sample_step)

lemma sample_fn_funpow:
  "\<exists>k. k \<le> total_sampling_steps st - decoding_step st
     \<and> sample_fn env sampling st = (sample_step env sampling ^^ k) st
     \<and> (\<forall>j<k. cond_fn ((sample_step env sampling ^^ j) st))
     \<and> \<not> cond_fn ((sample_step env sampling ^^ k) st)"
proof (induction env sampling st rule: sample_fn.induct)
  case (1 env sampling st)
  show ?case
  proof (cases "cond_fn st")
    case False
    then have "sample_fn env sampling st = st" by (simp add: sample_fn.simps)
    with False show ?thesis by (intro exI [of _ 0]) simp
  next
    case True
    let ?s = "sample_step env sampling st"
    from "1.IH" [OF True] obtain k where
      k: "k \<le> total_sampling_steps ?s - decoding_step ?s"
      and eq: "sample_fn env sampling ?s = (sample_step env sampling ^^ k) ?s"
      and all: "\<forall>j<k. cond_fn ((sample_step env sampling ^^ j) ?s)"
      and stop: "\<not> cond_fn ((sample_step env sampling ^^ k) ?s)"
      by blast
    have lt: "decoding_step st < total_sampling_steps st"
      using True by (simp add: cond_fn_def)
    have "Suc k \<le> total_sampling_steps st - decoding_step st"
      using k lt by (simp add: sample_step_fields)
    moreover have "sample_fn env sampling st = (sample_step env sampling ^^ Suc k) st"
      using True eq by (simp add: sample_fn.simps [of env sampling st] funpow_swap1)
    moreover have "\<forall>j<Suc k. cond_fn ((sample_step env sampling ^^ j) st)"
    proof (intro allI impI)
      fix j assume "j < Suc k"
      show "cond_fn ((sample_step env sampling ^^ j) st)"
      proof (cases j)
        case 0
        then show ?thesis using True by simp
      next
        case (Suc j')
        then have "j' < k" using \<open>j < Suc k\<close> by simp
        then show ?thesis using all Suc by (simp add: funpow_swap1)
      qed
    qed
    moreover have "\<not> cond_fn ((sample_step env sampling ^^ Suc k) st)"
      using stop by (simp add: funpow_swap1)
    ultimately show ?thesis by blast
  qed
qed


lemma example_state_init:
  "init_sample_state (byte_sampler example_special_tokens) [[2, 72, 101]] 6 False None
     = Inr example_state"
  by (simp add: init_sample_state_def byte_sampler_def example_special_tokens_def
      example_state_def Let_def upt_conv_Cons numeral_eq_Suc)

lemma init_sample_state_fields:
  assumes "init_sample_state env all_input_ids total_steps include_logits forbidden = Inr st0"
  shows "decoding_step st0 = 0"
    and "total_sampling_steps st0 = total_steps"
    and "num_input_tokens st0 = map (\<lambda>p. int (length p)) all_input_ids"
    and "token_buffer st0 =
           map (\<lambda>p. p @ replicate (total_steps + 1 - length p) (PAD (special_tokens env))) all_input_ids"
    and "done_flags st0 = replicate (length all_input_ids) False"
    and "forbidden_token_ids st0 = forbidden"
    and "\<forall>p \<in> set all_input_ids. length p \<le> total_steps + 1"
  using assms
  by (auto simp: init_sample_state_def Let_def list_ex_iff not_less split: if_splits)

lemma prompt_prefix_step:
  assumes i: "i < length (token_buffer st)"
    and n: "num_input_tokens st ! i = int (length p)"
    and p: "take (length p) (token_buffer st ! i) = p"
  shows "take (length p) (token_buffer (sample_step env sampling st) ! i) = p"
proof -
  let ?row = "token_buffer st ! i"
  let ?d = "decoding_step st"
  have len: "length p \<le> length ?row"
    using p by (metis length_take min.cobounded1 min.commute)
  have row': "token_buffer (sample_step env sampling st) ! i
                = ?row[?d + 1 := next_token env sampling st i]"
    using i by (simp add: token_buffer_sample_step)
  show ?thesis
  proof (cases "?d + 1 < length p")
    case True
    then have "int ?d < num_input_tokens st ! i - 1" using n by simp
    moreover have "column (token_buffer st) (?d + 1) ! i = ?row ! (?d + 1)"
      using i True len by (simp add: column_def clip_index_def)
    ultimately have "next_token env sampling st i = ?row ! (?d + 1)"
      by (simp add: next_token_def)
    then show ?thesis using row' p by simp
  next
    case False
    then show ?thesis using row' p by simp
  qed
qed

lemma prompt_prefix_funpow:
  assumes i: "i < length (token_buffer st)"
    and n: "num_input_tokens st ! i = int (length p)"
    and p: "take (length p) (token_buffer st ! i) = p"
  shows "take (length p) (token_buffer ((sample_step env sampling ^^ k) st) ! i) = p"
proof (induction k)
  case 0
  then show ?case using p by simp
next
  case (Suc k)
  let ?s = "(sample_step env sampling ^^ k) st"
  have "i < length (token_buffer ?s)" using i by (simp add: funpow_fields)
  moreover have "num_input_tokens ?s ! i = int (length p)" using n by (simp add: funpow_fields)
  ultimately show ?case using Suc.IH prompt_prefix_step by simp
qed


text \<open>
  Claim C10. One step returns \<open>num_input_tokens\<close>, \<open>positions\<close>,
  \<open>total_sampling_steps\<close> and \<open>forbidden_token_ids\<close> as it received them, and so does
  the whole loop: the positions in the final state are those computed at initialisation.
\<close>

theorem sample_step_frame:
  "num_input_tokens (sample_step env sampling st) = num_input_tokens st
   \<and> positions (sample_step env sampling st) = positions st
   \<and> total_sampling_steps (sample_step env sampling st) = total_sampling_steps st
   \<and> forbidden_token_ids (sample_step env sampling st) = forbidden_token_ids st
   \<and> num_input_tokens (sample_fn env sampling st) = num_input_tokens st
   \<and> positions (sample_fn env sampling st) = positions st
   \<and> total_sampling_steps (sample_fn env sampling st) = total_sampling_steps st
   \<and> forbidden_token_ids (sample_fn env sampling st) = forbidden_token_ids st"
proof -
  obtain k where "sample_fn env sampling st = (sample_step env sampling ^^ k) st"
    using sample_fn_funpow by blast
  then show ?thesis by (simp add: sample_step_fields funpow_fields)
qed

theorem sample_step_frame_witness:
  "positions (sample_fn (byte_sampler example_special_tokens) (constant_sampling 5) example_state)
     = [[0, 1, 2, 3, 4, 5, 6]]
   \<and> num_input_tokens
       (sample_step (byte_sampler example_special_tokens) (constant_sampling 5) example_state)
     = [3]"
  using sample_step_frame
    [of "byte_sampler example_special_tokens" "constant_sampling 5" example_state]
  by (simp add: example_state_def)

text \<open>
  Claim C4. For a sequence \<open>i\<close> of the batch, one step sets the flag to the old flag or
  the EOS test on the token in the slot just written, and a flag that is true after \<open>j\<close>
  steps is true after \<open>j + k\<close> steps, for every \<open>k\<close>.
\<close>

theorem done_flags_monotonic:
  assumes "i < length (token_buffer st)"
  shows "done_flags (sample_step env sampling st) ! i =
           (done_flags st ! i
            \<or> column (token_buffer (sample_step env sampling st)) (decoding_step st + 1) ! i
                = EOS (special_tokens env))
       \<and> (done_flags ((sample_step env sampling ^^ j) st) ! i
            \<longrightarrow> done_flags ((sample_step env sampling ^^ (j + k)) st) ! i)"
proof
  show "done_flags (sample_step env sampling st) ! i =
           (done_flags st ! i
            \<or> column (token_buffer (sample_step env sampling st)) (decoding_step st + 1) ! i
                = EOS (special_tokens env))"
    using assms by (subst done_flags_sample_step) simp
next
  have step: "done_flags (sample_step env sampling s) ! i"
    if "done_flags s ! i" and "i < length (token_buffer s)" for s
    using that by (subst done_flags_sample_step) simp
  have "done_flags ((sample_step env sampling ^^ (j + k)) st) ! i"
    if "done_flags ((sample_step env sampling ^^ j) st) ! i"
  proof (induction k)
    case 0
    then show ?case using that by simp
  next
    case (Suc k)
    have "i < length (token_buffer ((sample_step env sampling ^^ (j + k)) st))"
      using assms by (simp add: funpow_fields)
    then show ?case using Suc.IH step by simp
  qed
  then show "done_flags ((sample_step env sampling ^^ j) st) ! i
            \<longrightarrow> done_flags ((sample_step env sampling ^^ (j + k)) st) ! i"
    by blast
qed

lemma example_eos_step:
  "done_flags ((sample_step (byte_sampler example_special_tokens) (constant_sampling 1) ^^ 3)
      example_state) = [True]"
  by code_simp

theorem done_flags_monotonic_witness:
  "done_flags ((sample_step (byte_sampler example_special_tokens) (constant_sampling 1) ^^ 3)
      example_state) ! 0
   \<and> done_flags ((sample_step (byte_sampler example_special_tokens) (constant_sampling 1) ^^ (3 + 2))
      example_state) ! 0"
proof -
  have i: "0 < length (token_buffer example_state)" by (simp add: example_state_def)
  have d: "done_flags ((sample_step (byte_sampler example_special_tokens) (constant_sampling 1) ^^ 3)
      example_state) ! 0"
    by (simp add: example_eos_step)
  show ?thesis
    using done_flags_monotonic [OF i, of "byte_sampler example_special_tokens"
        "constant_sampling 1" 3 2] d
    by blast
qed


lemma cond_fn_iff:
  "cond_fn st =
     (decoding_step st < total_sampling_steps st
      \<and> (\<exists>i<length (done_flags st). \<not> done_flags st ! i))"
  unfolding cond_fn_def in_set_conv_nth by auto

text \<open>
  Claim C5. The loop condition is the conjunction of \<open>decoding_step < total_sampling_steps\<close>
  and "some sequence is not done"; a step adds exactly one to \<open>decoding_step\<close>; and the
  loop returns the state reached after some number \<open>k\<close> of steps, where the condition
  held before each of the \<open>k\<close> steps and fails after them, and \<open>k\<close> is at most
  \<open>total_sampling_steps - decoding_step\<close>, hence at most \<open>total_sampling_steps\<close>,
  whatever the done flags are. The state built by \<open>init_sample_state\<close> has
  \<open>decoding_step = 0\<close> and the step budget it was given.
\<close>

theorem sample_fn_step_bound:
  "cond_fn st =
     (decoding_step st < total_sampling_steps st
      \<and> (\<exists>i<length (done_flags st). \<not> done_flags st ! i))
   \<and> decoding_step (sample_step env sampling st) = decoding_step st + 1
   \<and> (\<exists>k. k \<le> total_sampling_steps st - decoding_step st
          \<and> k \<le> total_sampling_steps st
          \<and> sample_fn env sampling st = (sample_step env sampling ^^ k) st
          \<and> (\<forall>j<k. cond_fn ((sample_step env sampling ^^ j) st))
          \<and> \<not> cond_fn ((sample_step env sampling ^^ k) st))
   \<and> (init_sample_state env all_input_ids total_steps include_logits forbidden = Inr st
        \<longrightarrow> decoding_step st = 0 \<and> total_sampling_steps st = total_steps)"
proof -
  have init: "init_sample_state env all_input_ids total_steps include_logits forbidden = Inr st
        \<longrightarrow> decoding_step st = 0 \<and> total_sampling_steps st = total_steps"
    using init_sample_state_fields(1,2) by blast
  obtain k where k: "k \<le> total_sampling_steps st - decoding_step st"
    and rest: "sample_fn env sampling st = (sample_step env sampling ^^ k) st"
      "\<forall>j<k. cond_fn ((sample_step env sampling ^^ j) st)"
      "\<not> cond_fn ((sample_step env sampling ^^ k) st)"
    using sample_fn_funpow [of st env sampling] by blast
  have "k \<le> total_sampling_steps st" using k by simp
  with k rest have "\<exists>k. k \<le> total_sampling_steps st - decoding_step st
          \<and> k \<le> total_sampling_steps st
          \<and> sample_fn env sampling st = (sample_step env sampling ^^ k) st
          \<and> (\<forall>j<k. cond_fn ((sample_step env sampling ^^ j) st))
          \<and> \<not> cond_fn ((sample_step env sampling ^^ k) st)"
    by (intro exI [of _ k]) simp
  then show ?thesis
    using cond_fn_iff [of st] sample_step_fields(1) [of env sampling st] init by (intro conjI)
qed

theorem sample_fn_step_bound_witness:
  "decoding_step example_state = 0
   \<and> (\<exists>k. k \<le> 6
      \<and> sample_fn (byte_sampler example_special_tokens) (constant_sampling 5) example_state
          = (sample_step (byte_sampler example_special_tokens) (constant_sampling 5) ^^ k)
              example_state)"
proof -
  note T = sample_fn_step_bound
      [where st = example_state and env = "byte_sampler example_special_tokens"
        and sampling = "constant_sampling 5" and all_input_ids = "[[2, 72, 101]]"
        and total_steps = 6 and include_logits = False and forbidden = None]
  have d: "decoding_step example_state = 0 \<and> total_sampling_steps example_state = 6"
    using T example_state_init by blast
  from T obtain k where "k \<le> total_sampling_steps example_state"
    and "sample_fn (byte_sampler example_special_tokens) (constant_sampling 5) example_state
          = (sample_step (byte_sampler example_special_tokens) (constant_sampling 5) ^^ k)
              example_state"
    by blast
  then have "\<exists>k. k \<le> 6
      \<and> sample_fn (byte_sampler example_special_tokens) (constant_sampling 5) example_state
          = (sample_step (byte_sampler example_special_tokens) (constant_sampling 5) ^^ k)
              example_state"
    using d by (intro exI [of _ k]) simp
  then show ?thesis using d by simp
qed

text \<open>
  Claim C3. In the state built by \<open>init_sample_state\<close> from the tokenized prompts, and
  in the state after any number \<open>k\<close> of steps, and in the state the loop returns, the
  first \<open>num_input_tokens[i]\<close> slots of row \<open>i\<close> are the prompt of sequence \<open>i\<close>.
\<close>

theorem prompt_fidelity:
  assumes "init_sample_state env all_input_ids total_steps include_logits forbidden = Inr st0"
    and "i < length all_input_ids"
  shows "num_input_tokens ((sample_step env sampling ^^ k) st0) ! i
           = int (length (all_input_ids ! i))
       \<and> take (length (all_input_ids ! i))
            (token_buffer ((sample_step env sampling ^^ k) st0) ! i) = all_input_ids ! i
       \<and> take (length (all_input_ids ! i))
            (token_buffer (sample_fn env sampling st0) ! i) = all_input_ids ! i"
proof -
  let ?p = "all_input_ids ! i"
  note f = init_sample_state_fields [OF assms(1)]
  have i: "i < length (token_buffer st0)" using assms(2) f(4) by simp
  have n: "num_input_tokens st0 ! i = int (length ?p)" using assms(2) f(3) by simp
  have p: "take (length ?p) (token_buffer st0 ! i) = ?p" using assms(2) f(4) by simp
  have all: "take (length ?p) (token_buffer ((sample_step env sampling ^^ m) st0) ! i) = ?p"
    for m
    by (rule prompt_prefix_funpow [OF i n p])
  obtain m where "sample_fn env sampling st0 = (sample_step env sampling ^^ m) st0"
    using sample_fn_funpow by blast
  then show ?thesis using all n by (simp add: funpow_fields)
qed

theorem prompt_fidelity_witness:
  "take 3 (token_buffer
      ((sample_step (byte_sampler example_special_tokens) (constant_sampling 5) ^^ 5)
         example_state) ! 0) = [2, 72, 101]
   \<and> take 3 (token_buffer
      (sample_fn (byte_sampler example_special_tokens) (constant_sampling 5) example_state) ! 0)
       = [2, 72, 101]"
proof -
  have l: "length [2, 72, 101 :: int] = 3"
    and p: "[[2, 72, 101]] ! 0 = [2, 72, 101 :: int]"
    and i: "0 < length [[2, 72, 101 :: int]]"
    by simp_all
  from prompt_fidelity [OF example_state_init i, where sampling = "constant_sampling 5"
      and k = 5]
  show ?thesis unfolding l p by (elim conjE) (intro conjI)
qed

section \<open>Properties of the call\<close>

lemma forbidden_ids_loop_ok:
  assumes "\<forall>tok \<in> set toks. length (encode env tok) = 1"
  shows "forbidden_ids_loop env toks acc
           = (map Encode toks, Inr (acc @ concat (map (encode env) toks)))"
  using assms by (induction toks arbitrary: acc) (simp_all add: Let_def)

lemma forbidden_ids_loop_error:
  assumes "tok \<in> set toks" and "length (encode env tok) \<noteq> 1"
  shows "\<exists>k<length toks. forbidden_ids_loop env toks acc
           = (map Encode (take (Suc k) toks), Inl ForbiddenTokenError)"
  using assms
proof (induction toks arbitrary: acc)
  case Nil
  then show ?case by simp
next
  case (Cons t toks)
  show ?case
  proof (cases "length (encode env t) = 1")
    case False
    then have "forbidden_ids_loop env (t # toks) acc
                 = (map Encode (take (Suc 0) (t # toks)), Inl ForbiddenTokenError)"
      by (simp add: Let_def)
    then show ?thesis by (intro exI [of _ 0]) simp
  next
    case True
    then have "tok \<in> set toks" using Cons.prems by auto
    from Cons.IH [OF this Cons.prems(2), of "acc @ encode env t"]
    obtain k where k: "k < length toks"
      and eq: "forbidden_ids_loop env toks (acc @ encode env t)
                 = (map Encode (take (Suc k) toks), Inl ForbiddenTokenError)"
      by blast
    have "forbidden_ids_loop env (t # toks) acc
            = (map Encode (take (Suc (Suc k)) (t # toks)), Inl ForbiddenTokenError)"
      using True eq by (simp add: Let_def)
    then show ?thesis using k by (intro exI [of _ "Suc k"]) simp
  qed
qed

text \<open>
  Claim C6. When some forbidden-token string is encoded to a number of ids other than
  one, the call raises the error, whatever the prompts, the model and the sampling
  method are, and the only calls it has made are \<open>encode\<close> on the forbidden tokens up
  to the offending one: no prompt is tokenized, no sampling state is built and the
  decoding loop, where the transformer runs, is not entered.
\<close>

theorem call_rejects_forbidden_tokens:
  assumes "tok \<in> set toks" and "length (encode env tok) \<noteq> 1"
  shows "\<exists>k<length toks.
           call env input_strings total_generation_steps echo return_logits (Some toks) sampling
             = (map Encode (take (Suc k) toks), Inl ForbiddenTokenError)"
proof -
  obtain k where k: "k < length toks"
    and eq: "forbidden_ids_loop env toks []
               = (map Encode (take (Suc k) toks), Inl ForbiddenTokenError)"
    using forbidden_ids_loop_error [OF assms] by blast
  have "call env input_strings total_generation_steps echo return_logits (Some toks) sampling
          = (map Encode (take (Suc k) toks), Inl ForbiddenTokenError)"
    by (simp add: call_def forbidden_ids_of_def eq)
  then show ?thesis using k by blast
qed

theorem call_rejects_forbidden_tokens_witness:
  "snd (call (byte_sampler example_special_tokens) [''He''] 3 False False
          (Some [[CHR 0x05], ''ab'', ''c'']) (constant_sampling 5)) = Inl ForbiddenTokenError
   \<and> SampleFn \<notin> set (fst (call (byte_sampler example_special_tokens) [''He''] 3 False False
          (Some [[CHR 0x05], ''ab'', ''c'']) (constant_sampling 5)))
   \<and> Tokenize ''He'' \<notin> set (fst (call (byte_sampler example_special_tokens) [''He''] 3 False
          False (Some [[CHR 0x05], ''ab'', ''c'']) (constant_sampling 5)))"
proof -
  have m: "''ab'' \<in> set [[CHR 0x05], ''ab'', ''c'']" by simp
  have l: "length (encode (byte_sampler example_special_tokens) ''ab'') \<noteq> 1"
    by (simp add: byte_sampler_def)
  from call_rejects_forbidden_tokens [OF m l, of "[''He'']" 3 False False "constant_sampling 5"]
  obtain k where "call (byte_sampler example_special_tokens) [''He''] 3 False False
          (Some [[CHR 0x05], ''ab'', ''c'']) (constant_sampling 5)
      = (map Encode (take (Suc k) [[CHR 0x05], ''ab'', ''c'']), Inl ForbiddenTokenError)"
    by blast
  then show ?thesis by (auto dest: in_set_takeD)
qed

lemma length_row_sample_step:
  "i < length (token_buffer st) \<Longrightarrow>
     length (token_buffer (sample_step env sampling st) ! i) = length (token_buffer st ! i)"
  by (simp add: token_buffer_sample_step)

lemma length_row_funpow:
  "i < length (token_buffer st) \<Longrightarrow>
     length (token_buffer ((sample_step env sampling ^^ k) st) ! i) = length (token_buffer st ! i)"
  by (induction k) (simp_all add: length_row_sample_step funpow_fields)

lemma logits_buffer_sample_step:
  "(logits_buffer (sample_step env sampling st) = None) = (logits_buffer st = None)"
  by (simp add: sample_step_def Let_def split_def split: option.splits)

lemma logits_buffer_funpow:
  "(logits_buffer ((sample_step env sampling ^^ k) st) = None) = (logits_buffer st = None)"
  by (induction k) (simp_all add: logits_buffer_sample_step)

lemma init_sample_state_ok:
  assumes "\<forall>p \<in> set ids. length p \<le> total_steps + 1"
  shows "\<exists>st0. init_sample_state env ids total_steps include_logits forbidden = Inr st0
            \<and> (include_logits \<longrightarrow> logits_buffer st0 \<noteq> None)"
  using assms by (auto simp: init_sample_state_def Let_def list_ex_iff not_less)

lemma call_unfold:
  fixes env :: "('c, 'r) sampler" and input_strings :: "string list"
    and total_generation_steps :: nat
  assumes fo: "forbidden_ids_of env forbidden_tokens = (ev1, Inr fids)"
    and ne: "input_strings \<noteq> []"
  defines "total_steps \<equiv>
     Max (set (map length (map (tokenize env) input_strings))) + total_generation_steps"
  shows "\<exists>st0 lg.
           init_sample_state env (map (tokenize env) input_strings) total_steps return_logits fids
             = Inr st0
         \<and> call env input_strings total_generation_steps echo return_logits forbidden_tokens
             sampling
           = (ev1 @ map Tokenize input_strings @ [InitSampleState] @ [SampleFn]
                @ map Decode (output_tokens env echo total_steps (sample_fn env sampling st0)),
              Inr (\<lparr>text_out = map (decode env)
                        (output_tokens env echo total_steps (sample_fn env sampling st0)),
                     logits_out = lg,
                     tokens_out = output_tokens env echo total_steps (sample_fn env sampling st0)\<rparr>,
                   rng (sample_fn env sampling st0)))"
proof -
  let ?ids = "map (tokenize env) input_strings"
  have "\<forall>p \<in> set ?ids. length p \<le> Max (set (map length ?ids))"
    by (intro ballI Max_ge) auto
  then have "\<forall>p \<in> set ?ids. length p \<le> total_steps + 1"
    unfolding total_steps_def by (meson le_add1 order_trans)
  from init_sample_state_ok [OF this, of env return_logits fids]
  obtain st0 where init: "init_sample_state env ?ids total_steps return_logits fids = Inr st0"
    and lb: "return_logits \<longrightarrow> logits_buffer st0 \<noteq> None"
    by blast
  let ?final = "sample_fn env sampling st0"
  let ?toks = "output_tokens env echo total_steps ?final"
  obtain k where "?final = (sample_step env sampling ^^ k) st0"
    using sample_fn_funpow by blast
  then have lbf: "return_logits \<longrightarrow> logits_buffer ?final \<noteq> None"
    using lb by (simp add: logits_buffer_funpow)
  have "\<exists>lg. return_logits \<longrightarrow>
              extract_logits echo total_steps
                (length (mask_tokens_after_eos_ids (special_tokens env) (token_buffer ?final)))
                (num_input_tokens ?final) (logits_buffer ?final) = Inr lg"
    using lbf by (auto simp: extract_logits_def)
  then obtain lg0 where lg0: "return_logits \<Longrightarrow>
              extract_logits echo total_steps
                (length (mask_tokens_after_eos_ids (special_tokens env) (token_buffer ?final)))
                (num_input_tokens ?final) (logits_buffer ?final) = Inr lg0"
    by blast
  define lg where "lg = (if return_logits then lg0 else [])"
  have "call env input_strings total_generation_steps echo return_logits forbidden_tokens
             sampling
           = (ev1 @ map Tokenize input_strings @ [InitSampleState] @ [SampleFn]
                @ map Decode ?toks,
              Inr (\<lparr>text_out = map (decode env) ?toks, logits_out = lg, tokens_out = ?toks\<rparr>,
                   rng ?final))"
    using init ne lg0 unfolding total_steps_def output_tokens_def lg_def
    by (cases return_logits) (simp_all add: call_def fo Let_def)
  with init show ?thesis by blast
qed


lemma forbidden_ids_of_ok:
  assumes "\<forall>toks. forbidden_tokens = Some toks
             \<longrightarrow> (\<forall>tok \<in> set toks. length (encode env tok) = 1)"
  shows "\<exists>ev1 fids. forbidden_ids_of env forbidden_tokens = (ev1, Inr fids)"
proof (cases forbidden_tokens)
  case None
  then show ?thesis by (simp add: forbidden_ids_of_def)
next
  case (Some toks)
  then have "\<forall>tok \<in> set toks. length (encode env tok) = 1" using assms by blast
  then show ?thesis
    using Some by (simp add: forbidden_ids_of_def forbidden_ids_loop_ok)
qed

lemma slice_eq_map_nth:
  assumes "stop \<le> length xs"
  shows "slice start stop xs = map (\<lambda>j. xs ! j) [start..<stop]"
proof (rule nth_equalityI)
  show "length (slice start stop xs) = length (map (\<lambda>j. xs ! j) [start..<stop])"
    using assms by (simp add: slice_def)
next
  fix j assume "j < length (slice start stop xs)"
  then have "j < stop - start" using assms by (simp add: slice_def)
  then show "slice start stop xs ! j = map (\<lambda>j. xs ! j) [start..<stop] ! j"
    using assms by (simp add: slice_def)
qed

lemma output_tokens_nth:
  assumes "i < length (token_buffer final)" and "i < length (num_input_tokens final)"
  shows "output_tokens env echo total_steps final ! i =
           slice (start_idx echo (num_input_tokens final ! i)) total_steps
             (mask_row (special_tokens env) (token_buffer final ! i))"
  using assms
  by (simp add: output_tokens_def extract_tokens_def mask_tokens_after_eos_ids_def)

lemma length_output_tokens:
  "length (output_tokens env echo total_steps final)
     = min (length (token_buffer final)) (length (num_input_tokens final))"
  by (simp add: output_tokens_def extract_tokens_def mask_tokens_after_eos_ids_def)

lemma final_state_shape:
  assumes init: "init_sample_state env ids total_steps include_logits forbidden = Inr st0"
    and i: "i < length ids"
  shows "length (token_buffer (sample_fn env sampling st0)) = length ids"
    and "length (num_input_tokens (sample_fn env sampling st0)) = length ids"
    and "num_input_tokens (sample_fn env sampling st0) ! i = int (length (ids ! i))"
    and "length (token_buffer (sample_fn env sampling st0) ! i) = total_steps + 1"
proof -
  note f = init_sample_state_fields [OF init]
  obtain k where k: "sample_fn env sampling st0 = (sample_step env sampling ^^ k) st0"
    using sample_fn_funpow by blast
  have l0: "length (token_buffer st0) = length ids" using f(4) by simp
  show "length (token_buffer (sample_fn env sampling st0)) = length ids"
    using k l0 by (simp add: funpow_fields)
  show "length (num_input_tokens (sample_fn env sampling st0)) = length ids"
    using k f(3) by (simp add: funpow_fields)
  show "num_input_tokens (sample_fn env sampling st0) ! i = int (length (ids ! i))"
    using k f(3) i by (simp add: funpow_fields)
  have "length (ids ! i) \<le> total_steps + 1" using f(7) i by simp
  then have "length (token_buffer st0 ! i) = total_steps + 1" using f(4) i by simp
  then show "length (token_buffer (sample_fn env sampling st0) ! i) = total_steps + 1"
    using k l0 i by (simp add: length_row_funpow)
qed


text \<open>
  Claim C8. When no forbidden token is rejected and there is at least one prompt, the
  call returns one token list per prompt. With \<open>n\<close> the number of tokens of prompt \<open>i\<close>
  (BOS included) and \<open>total_steps\<close> the longest prompt plus the generation steps, the
  list of sequence \<open>i\<close> holds the slots \<open>start, ..., total_steps - 1\<close> of row \<open>i\<close> of the
  masked buffer, where \<open>start\<close> is 0 with echo and \<open>n\<close> without; the row has
  \<open>total_steps + 1\<close> slots, so its last slot is never returned. The list has
  \<open>total_steps\<close> tokens with echo and \<open>total_steps - n\<close> without.
\<close>

theorem output_token_count:
  fixes env :: "('c, 'r) sampler" and input_strings :: "string list"
    and total_generation_steps :: nat and i :: nat
  assumes ok: "\<forall>toks. forbidden_tokens = Some toks
                 \<longrightarrow> (\<forall>tok \<in> set toks. length (encode env tok) = 1)"
    and i: "i < length input_strings"
  defines "total_steps \<equiv>
     Max (set (map length (map (tokenize env) input_strings))) + total_generation_steps"
    and "n \<equiv> length (tokenize env (input_strings ! i))"
  shows "\<exists>ev out r fids st0.
           call env input_strings total_generation_steps echo return_logits forbidden_tokens
             sampling = (ev, Inr (out, r))
         \<and> init_sample_state env (map (tokenize env) input_strings) total_steps return_logits
             fids = Inr st0
         \<and> length (tokens_out out) = length input_strings
         \<and> n \<le> total_steps
         \<and> length (mask_tokens_after_eos_ids (special_tokens env)
                     (token_buffer (sample_fn env sampling st0)) ! i) = total_steps + 1
         \<and> tokens_out out ! i =
             map (\<lambda>j. mask_tokens_after_eos_ids (special_tokens env)
                         (token_buffer (sample_fn env sampling st0)) ! i ! j)
               [(if echo then 0 else n)..<total_steps]
         \<and> length (tokens_out out ! i) = (if echo then total_steps else total_steps - n)"
proof -
  let ?ids = "map (tokenize env) input_strings"
  obtain ev1 fids where fo: "forbidden_ids_of env forbidden_tokens = (ev1, Inr fids)"
    using forbidden_ids_of_ok [OF ok] by blast
  have ne: "input_strings \<noteq> []" using i by auto
  from call_unfold [OF fo ne, of total_generation_steps return_logits echo sampling]
  obtain st0 lg where init:
      "init_sample_state env ?ids total_steps return_logits fids = Inr st0"
    and c: "call env input_strings total_generation_steps echo return_logits forbidden_tokens
             sampling
           = (ev1 @ map Tokenize input_strings @ [InitSampleState] @ [SampleFn]
                @ map Decode (output_tokens env echo total_steps (sample_fn env sampling st0)),
              Inr (\<lparr>text_out = map (decode env)
                        (output_tokens env echo total_steps (sample_fn env sampling st0)),
                     logits_out = lg,
                     tokens_out = output_tokens env echo total_steps (sample_fn env sampling st0)\<rparr>,
                   rng (sample_fn env sampling st0)))"
    unfolding total_steps_def by blast
  let ?final = "sample_fn env sampling st0"
  let ?toks = "output_tokens env echo total_steps ?final"
  let ?masked = "mask_tokens_after_eos_ids (special_tokens env) (token_buffer ?final)"
  have i': "i < length ?ids" using i by simp
  note sh = final_state_shape [OF init i', of sampling]
  have n_eq: "num_input_tokens ?final ! i = int n" using sh(3) i by (simp add: n_def)
  have len_toks: "length ?toks = length input_strings"
    using sh(1,2) by (simp add: length_output_tokens)
  have "n \<le> Max (set (map length ?ids))"
    unfolding n_def using i by (intro Max_ge) auto
  then have n_le: "n \<le> total_steps" unfolding total_steps_def by simp
  have masked_i: "?masked ! i = mask_row (special_tokens env) (token_buffer ?final ! i)"
    using sh(1) i by (simp add: mask_tokens_after_eos_ids_def)
  have len_masked: "length (?masked ! i) = total_steps + 1"
    using sh(4) by (simp add: masked_i length_mask_row)
  have start: "start_idx echo (int n) = (if echo then 0 else n)"
    by (simp add: start_idx_def)
  have "?toks ! i = slice (if echo then 0 else n) total_steps (?masked ! i)"
    using sh(1,2) i by (simp add: output_tokens_nth n_eq start masked_i)
  also have "\<dots> = map (\<lambda>j. ?masked ! i ! j) [(if echo then 0 else n)..<total_steps]"
    using len_masked by (intro slice_eq_map_nth) simp
  finally have nth: "?toks ! i = map (\<lambda>j. ?masked ! i ! j) [(if echo then 0 else n)..<total_steps]" .
  then have len_i: "length (?toks ! i) = (if echo then total_steps else total_steps - n)"
    by simp
  let ?out = "\<lparr>text_out = map (decode env) ?toks, logits_out = lg, tokens_out = ?toks\<rparr>"
  have 1: "length (tokens_out ?out) = length input_strings" using len_toks by simp
  have 2: "tokens_out ?out ! i
             = map (\<lambda>j. ?masked ! i ! j) [(if echo then 0 else n)..<total_steps]"
    using nth by simp
  have 3: "length (tokens_out ?out ! i) = (if echo then total_steps else total_steps - n)"
    using len_i by simp
  from c init 1 n_le len_masked 2 3 show ?thesis by blast
qed

theorem output_token_count_witness:
  "\<exists>ev out r.
      call (byte_sampler example_special_tokens) [''He'', ''Hello''] 3 False False None
        (constant_sampling 5) = (ev, Inr (out, r))
      \<and> length (tokens_out out) = 2
      \<and> length (tokens_out out ! 0) = 6"
proof -
  have ok: "\<forall>toks. (None :: string list option) = Some toks
              \<longrightarrow> (\<forall>tok \<in> set toks. length (encode (byte_sampler example_special_tokens) tok) = 1)"
    by simp
  have i: "0 < length [''He'', ''Hello'']" by simp
  have t: "Max (set (map length (map (tokenize (byte_sampler example_special_tokens))
              [''He'', ''Hello'']))) + 3 = 9"
    by (simp add: tokenize_def byte_sampler_def)
  have n: "length (tokenize (byte_sampler example_special_tokens) ([''He'', ''Hello''] ! 0)) = 3"
    by (simp add: tokenize_def byte_sampler_def)
  from output_token_count [OF ok i, of 3 False False "constant_sampling 5"]
  show ?thesis unfolding t n by auto
qed

section \<open>Forbidden tokens\<close>

lemma forbid_row_fold_length:
  "length (fold (\<lambda>i w. case scatter_index (length w) i of None \<Rightarrow> w | Some k \<Rightarrow> w[k := NegInf])
             ids v) = length v"
  by (induction ids arbitrary: v) (simp_all split: option.splits)

lemma length_forbid_row: "length (forbid_row ids v) = length v"
  by (simp add: forbid_row_def forbid_row_fold_length)

lemma scatter_index_less: "scatter_index n f = Some k \<Longrightarrow> k < n"
  by (auto simp: scatter_index_def Let_def split: if_splits)

lemma forbid_row_keeps_neg_inf:
  assumes "k < length v" and "v ! k = NegInf"
  shows "forbid_row ids v ! k = NegInf"
  using assms unfolding forbid_row_def
proof (induction ids arbitrary: v)
  case Nil
  then show ?case by simp
next
  case (Cons a ids)
  let ?w = "case scatter_index (length v) a of None \<Rightarrow> v | Some j \<Rightarrow> v[j := NegInf]"
  have "length ?w = length v" by (simp split: option.splits)
  moreover have "?w ! k = NegInf"
    using Cons.prems by (auto simp: nth_list_update dest: scatter_index_less split: option.splits)
  ultimately show ?case using Cons.IH [of ?w] Cons.prems(1) by simp
qed

lemma forbid_row_neg_inf:
  assumes "f \<in> set ids" and "scatter_index (length v) f = Some k"
  shows "forbid_row ids v ! k = NegInf"
  using assms
proof (induction ids arbitrary: v)
  case Nil
  then show ?case by simp
next
  case (Cons a ids)
  let ?w = "case scatter_index (length v) a of None \<Rightarrow> v | Some j \<Rightarrow> v[j := NegInf]"
  have len: "length ?w = length v" by (simp split: option.splits)
  have unfold: "forbid_row (a # ids) v = forbid_row ids ?w"
    by (simp add: forbid_row_def)
  have k: "k < length v" using Cons.prems(2) by (rule scatter_index_less)
  show ?case
  proof (cases "f = a")
    case True
    then have "?w ! k = NegInf" using Cons.prems(2) k by simp
    then show ?thesis
      unfolding unfold using forbid_row_keeps_neg_inf [of k ?w ids] k len by simp
  next
    case False
    then have "f \<in> set ids" using Cons.prems(1) by simp
    then show ?thesis
      unfolding unfold using Cons.IH [of ?w] Cons.prems(2) len by simp
  qed
qed

lemma step_logits_forbidden:
  assumes "forbidden_token_ids st = Some ids" and "ids \<noteq> []"
  shows "fst (step_logits env st) =
           set_forbidden ids
             (fst (transformer_apply env
                (map (\<lambda>t. [t]) (column (token_buffer st) (decoding_step st)))
                (map (\<lambda>p. [p]) (column (positions st) (decoding_step st)))
                (cache st)
                (compute_attention_masks (decoding_step st) (cache_length env)
                   (map (map (\<lambda>t. t \<noteq> PAD (special_tokens env))) (token_buffer st)))))"
  using assms by (simp add: step_logits_def Let_def split_def)

lemma step_logits_neg_inf:
  assumes "forbidden_token_ids st = Some ids" and "ids \<noteq> []" and "f \<in> set ids"
    and "b < length (fst (step_logits env st))"
    and "l < length (fst (step_logits env st) ! b)"
    and "scatter_index (length (fst (step_logits env st) ! b ! l)) f = Some k"
  shows "fst (step_logits env st) ! b ! l ! k = NegInf"
  using assms(3-6) unfolding step_logits_forbidden [OF assms(1,2)] set_forbidden_def
  by (simp add: length_forbid_row forbid_row_neg_inf)


lemma scatter_index_nat: "0 \<le> f \<Longrightarrow> nat f < n \<Longrightarrow> scatter_index n f = Some (nat f)"
  by (simp add: scatter_index_def Let_def)

lemma generated_token:
  assumes "i < length (token_buffer st)"
    and "\<not> int (decoding_step st) < num_input_tokens st ! i - 1"
    and "decoding_step st + 1 < length (token_buffer st ! i)"
  shows "token_buffer (sample_step env sampling st) ! i ! (decoding_step st + 1)
           = sampled_candidates env sampling st ! i"
  using assms by (simp add: token_buffer_sample_step next_token_def)

text \<open>
  Claim C7, as the code has it. At a step whose state carries a non-empty tuple of
  forbidden ids, the logits handed to the sampling method are \<open>-inf\<close> at every forbidden
  id that lies in the vocabulary. The step then writes the candidate of the sampling
  method without looking at it: the token generated for a sequence differs from every
  forbidden id provided the candidate is a vocabulary id whose logit is not \<open>-inf\<close>.
\<close>

theorem forbidden_logits_neg_inf:
  assumes "forbidden_token_ids st = Some ids" and "ids \<noteq> []" and "f \<in> set ids"
  shows "(\<forall>b l. b < length (fst (step_logits env st))
            \<longrightarrow> l < length (fst (step_logits env st) ! b)
            \<longrightarrow> 0 \<le> f \<longrightarrow> nat f < length (fst (step_logits env st) ! b ! l)
            \<longrightarrow> fst (step_logits env st) ! b ! l ! nat f = NegInf)
       \<and> (\<forall>i. i < length (token_buffer st)
            \<longrightarrow> \<not> int (decoding_step st) < num_input_tokens st ! i - 1
            \<longrightarrow> decoding_step st + 1 < length (token_buffer st ! i)
            \<longrightarrow> i < length (fst (step_logits env st))
            \<longrightarrow> 0 < length (fst (step_logits env st) ! i)
            \<longrightarrow> 0 \<le> sampled_candidates env sampling st ! i
            \<longrightarrow> nat (sampled_candidates env sampling st ! i)
                  < length (fst (step_logits env st) ! i ! 0)
            \<longrightarrow> fst (step_logits env st) ! i ! 0 ! nat (sampled_candidates env sampling st ! i)
                  \<noteq> NegInf
            \<longrightarrow> token_buffer (sample_step env sampling st) ! i ! (decoding_step st + 1) \<noteq> f)"
proof (intro conjI allI impI)
  fix b l
  assume "b < length (fst (step_logits env st))" "l < length (fst (step_logits env st) ! b)"
    "0 \<le> f" "nat f < length (fst (step_logits env st) ! b ! l)"
  then show "fst (step_logits env st) ! b ! l ! nat f = NegInf"
    using step_logits_neg_inf [OF assms] scatter_index_nat by blast
next
  fix i
  let ?c = "sampled_candidates env sampling st ! i"
  let ?v = "fst (step_logits env st) ! i ! 0"
  assume i: "i < length (token_buffer st)"
    and gen: "\<not> int (decoding_step st) < num_input_tokens st ! i - 1"
    and slot: "decoding_step st + 1 < length (token_buffer st ! i)"
    and b: "i < length (fst (step_logits env st))"
    and l: "0 < length (fst (step_logits env st) ! i)"
    and c: "0 \<le> ?c" "nat ?c < length ?v" "?v ! nat ?c \<noteq> NegInf"
  have tok: "token_buffer (sample_step env sampling st) ! i ! (decoding_step st + 1) = ?c"
    by (rule generated_token [OF i gen slot])
  show "token_buffer (sample_step env sampling st) ! i ! (decoding_step st + 1) \<noteq> f"
  proof
    assume "token_buffer (sample_step env sampling st) ! i ! (decoding_step st + 1) = f"
    then have "?c = f" using tok by simp
    then have "scatter_index (length ?v) f = Some (nat ?c)"
      using c(1,2) scatter_index_nat by blast
    then have "?v ! nat ?c = NegInf"
      using step_logits_neg_inf [OF assms b l] by blast
    then show False using c(3) by simp
  qed
qed

lemma example_forbidden_state_reached:
  "(sample_step (byte_sampler example_special_tokens) (constant_sampling 7) ^^ 2)
     (example_state\<lparr>forbidden_token_ids := Some [5]\<rparr>) = example_forbidden_state"
  by code_simp

theorem forbidden_logits_neg_inf_witness:
  "fst (step_logits (byte_sampler example_special_tokens) example_forbidden_state) ! 0 ! 0 ! 5
     = NegInf
   \<and> token_buffer (sample_step (byte_sampler example_special_tokens) (constant_sampling 7)
        example_forbidden_state) ! 0 ! 3 \<noteq> 5"
proof -
  let ?E = "byte_sampler example_special_tokens"
  let ?st = example_forbidden_state
  have a: "forbidden_token_ids ?st = Some [5]" "[5 :: int] \<noteq> []" "(5 :: int) \<in> set [5]"
    by (simp_all add: example_forbidden_state_def)
  note T = forbidden_logits_neg_inf [OF a, of ?E "constant_sampling 7"]
  have shape: "0 < length (fst (step_logits ?E ?st))"
      "0 < length (fst (step_logits ?E ?st) ! 0)"
      "nat 5 < length (fst (step_logits ?E ?st) ! 0 ! 0)"
    by code_simp+
  have st: "0 < length (token_buffer ?st)"
      "\<not> int (decoding_step ?st) < num_input_tokens ?st ! 0 - 1"
      "decoding_step ?st + 1 < length (token_buffer ?st ! 0)"
    by (simp_all add: example_forbidden_state_def example_state_def)
  have cand: "sampled_candidates ?E (constant_sampling 7) ?st ! 0 = 7"
    by code_simp
  have fin: "nat 7 < length (fst (step_logits ?E ?st) ! 0 ! 0)"
      "fst (step_logits ?E ?st) ! 0 ! 0 ! nat 7 \<noteq> NegInf"
    by code_simp+
  have d: "decoding_step ?st + 1 = 3" by (simp add: example_forbidden_state_def)
  have 1: "fst (step_logits ?E ?st) ! 0 ! 0 ! nat 5 = NegInf"
    using T [THEN conjunct1, rule_format, of 0 0] shape by simp
  have 2: "token_buffer (sample_step ?E (constant_sampling 7) ?st) ! 0 ! (decoding_step ?st + 1)
             \<noteq> 5"
    using T [THEN conjunct2, rule_format, of 0] shape(1,2) st cand fin by simp
  show ?thesis using 1 2 unfolding d by simp
qed

text \<open>
  Claim C7 as stated also asks that no generated token be a forbidden id. With the
  one-character token of code 5 forbidden (its id is 5) and the sampling method that
  returns id 5 whatever the logits are, the three generated tokens are 5.
\<close>

theorem forbidden_token_generated_counterexample:
  "forbidden_ids_of (byte_sampler example_special_tokens) (Some [[CHR 0x05]])
     = ([Encode [CHR 0x05]], Inr (Some [5]))
   \<and> snd (call (byte_sampler example_special_tokens) [''He''] 3 False False
            (Some [[CHR 0x05]]) (constant_sampling 5))
       = Inr (\<lparr>text_out = [[CHR 0x05, CHR 0x05, CHR 0x05]], logits_out = [],
               tokens_out = [[5, 5, 5]]\<rparr>, 6)"
  by code_simp

section \<open>The end-to-end examples\<close>


lemma sample_fn_exact:
  assumes "\<forall>j<m. cond_fn ((sample_step env sampling ^^ j) st)"
    and "\<not> cond_fn ((sample_step env sampling ^^ m) st)"
  shows "sample_fn env sampling st = (sample_step env sampling ^^ m) st"
  using assms
proof (induction m arbitrary: st)
  case 0
  then show ?case by (simp add: sample_fn.simps)
next
  case (Suc m)
  have c: "cond_fn st" using Suc.prems(1) [rule_format, of 0] by simp
  have "\<forall>j<m. cond_fn ((sample_step env sampling ^^ j) (sample_step env sampling st))"
    using Suc.prems(1) by (auto simp: funpow_swap1 dest: Suc_mono)
  moreover have "\<not> cond_fn ((sample_step env sampling ^^ m) (sample_step env sampling st))"
    using Suc.prems(2) by (simp add: funpow_swap1)
  ultimately have "sample_fn env sampling (sample_step env sampling st)
                     = (sample_step env sampling ^^ m) (sample_step env sampling st)"
    by (rule Suc.IH)
  then show ?case using c by (simp add: sample_fn.simps [of env sampling st] funpow_swap1)
qed

lemma single_sequence_step:
  assumes "token_buffer st = [row]" and "num_input_tokens st = [n]" and "done_flags st = [b]"
    and "decoding_step st = d" and "d + 1 < length row"
  shows "token_buffer (sample_step env sampling st)
           = [row[d + 1 := (if int d < n - 1 then row ! (d + 1)
                            else sampled_candidates env sampling st ! 0)]]"
    and "done_flags (sample_step env sampling st)
           = [b \<or> (if int d < n - 1 then row ! (d + 1)
                    else sampled_candidates env sampling st ! 0) = EOS (special_tokens env)]"
    and "num_input_tokens (sample_step env sampling st) = [n]"
    and "decoding_step (sample_step env sampling st) = d + 1"
proof -
  show tb: "token_buffer (sample_step env sampling st)
           = [row[d + 1 := (if int d < n - 1 then row ! (d + 1)
                            else sampled_candidates env sampling st ! 0)]]"
    using assms
    by (simp add: token_buffer_sample_step next_token_def column_def clip_index_def)
  show "done_flags (sample_step env sampling st)
           = [b \<or> (if int d < n - 1 then row ! (d + 1)
                    else sampled_candidates env sampling st ! 0) = EOS (special_tokens env)]"
    using assms
    by (subst done_flags_sample_step) (simp add: tb column_def clip_index_def)
  show "num_input_tokens (sample_step env sampling st) = [n]"
    using assms by (simp add: sample_step_fields)
  show "decoding_step (sample_step env sampling st) = d + 1"
    using assms by (simp add: sample_step_fields)
qed


lemma token_view_step:
  assumes "token_view st = (d, [row], [3], [b], 6)"
    and "d + 1 < length row"
    and "t = (if d < 2 then row ! (d + 1) else sampled_candidates env sampling st ! 0)"
  shows "token_view (sample_step env sampling st)
           = (d + 1, [row[d + 1 := t]], [3], [b \<or> t = EOS (special_tokens env)], 6)"
proof -
  have c: "(int d < 3 - 1) = (d < 2)" by auto
  have f: "token_buffer st = [row]" "num_input_tokens st = [3]" "done_flags st = [b]"
      "decoding_step st = d" "total_sampling_steps st = 6"
    using assms(1) by (simp_all add: token_view_def)
  show ?thesis
    using single_sequence_step [OF f(1-4) assms(2), of env sampling] assms(3) f(5)
    by (simp add: c token_view_def sample_step_fields)
qed

lemma example_init:
  assumes "encode env s = [72, 101]"
  shows "\<exists>st0. init_sample_state env [tokenize env s] 6 return_logits None = Inr st0
           \<and> token_view st0 =
               (0, [[BOS (special_tokens env), 72, 101, PAD (special_tokens env),
                     PAD (special_tokens env), PAD (special_tokens env),
                     PAD (special_tokens env)]], [3], [False], 6)"
  using assms
  by (simp add: init_sample_state_def tokenize_def token_view_def Let_def numeral_eq_Suc)

lemma example_replay:
  assumes v: "token_view st0 = (0, [[bos, 72, 101, pad, pad, pad, pad]], [3], [False], 6)"
    and eos: "EOS (special_tokens env) \<noteq> 72" "EOS (special_tokens env) \<noteq> 101"
  shows "token_view (sample_step env sampling st0)
           = (1, [[bos, 72, 101, pad, pad, pad, pad]], [3], [False], 6)"
    and "token_view (sample_step env sampling (sample_step env sampling st0))
           = (2, [[bos, 72, 101, pad, pad, pad, pad]], [3], [False], 6)"
proof -
  show 1: "token_view (sample_step env sampling st0)
           = (1, [[bos, 72, 101, pad, pad, pad, pad]], [3], [False], 6)"
    using token_view_step [OF v, of 72 env sampling] eos by simp
  show "token_view (sample_step env sampling (sample_step env sampling st0))
           = (2, [[bos, 72, 101, pad, pad, pad, pad]], [3], [False], 6)"
    using token_view_step [OF 1, of 101 env sampling] eos by simp
qed

lemma cond_fn_token_view:
  assumes "token_view st = (d, buf, ns, [b], total_steps)"
  shows "cond_fn st = (d < total_steps \<and> \<not> b)"
  using assms by (auto simp: token_view_def cond_fn_def)

lemma example_call:
  assumes enc: "encode env s = [72, 101]"
    and init: "init_sample_state env [tokenize env s] 6 return_logits None = Inr st0"
  shows "\<exists>lg. call env [s] 3 echo return_logits None sampling
           = ([Tokenize s, InitSampleState, SampleFn]
                @ map Decode (output_tokens env echo 6 (sample_fn env sampling st0)),
              Inr (\<lparr>text_out = map (decode env)
                        (output_tokens env echo 6 (sample_fn env sampling st0)),
                     logits_out = lg,
                     tokens_out = output_tokens env echo 6 (sample_fn env sampling st0)\<rparr>,
                   rng (sample_fn env sampling st0)))"
proof -
  have fo: "forbidden_ids_of env None = ([], Inr None)" by (simp add: forbidden_ids_of_def)
  have t: "Max (set (map length (map (tokenize env) [s]))) + 3 = 6"
    using enc by (simp add: tokenize_def)
  have ne: "[s] \<noteq> []" by simp
  from call_unfold [OF fo ne, of 3 return_logits echo sampling]
  obtain st0' lg where i': "init_sample_state env (map (tokenize env) [s]) 6 return_logits None
                              = Inr st0'"
    and c: "call env [s] 3 echo return_logits None sampling
           = ([] @ map Tokenize [s] @ [InitSampleState] @ [SampleFn]
                @ map Decode (output_tokens env echo 6 (sample_fn env sampling st0')),
              Inr (\<lparr>text_out = map (decode env)
                        (output_tokens env echo 6 (sample_fn env sampling st0')),
                     logits_out = lg,
                     tokens_out = output_tokens env echo 6 (sample_fn env sampling st0')\<rparr>,
                   rng (sample_fn env sampling st0')))"
    unfolding t by blast
  have "st0' = st0" using i' init by simp
  then show ?thesis using c by (intro exI [of _ lg]) simp
qed

lemma example_output:
  assumes "token_view final = (d, [row], [3], [b], 6)" and "length row = 7"
  shows "output_tokens env False 6 final
           = [map (\<lambda>j. mask_row (special_tokens env) row ! j) [3..<6]]"
proof -
  have f: "token_buffer final = [row]" "num_input_tokens final = [3]"
    using assms(1) by (simp_all add: token_view_def)
  have "slice 3 6 (mask_row (special_tokens env) row)
          = map (\<lambda>j. mask_row (special_tokens env) row ! j) [3..<6]"
    using assms(2) by (intro slice_eq_map_nth) (simp add: length_mask_row)
  then show ?thesis
    by (simp add: output_tokens_def extract_tokens_def mask_tokens_after_eos_ids_def f
        start_idx_def)
qed

lemma mask_row_first_eos:
  assumes "EOS sp \<notin> set xs"
  shows "mask_row sp (xs @ EOS sp # ys) = xs @ EOS sp # replicate (length ys) (PAD sp)"
proof (rule nth_equalityI)
  show "length (mask_row sp (xs @ EOS sp # ys))
          = length (xs @ EOS sp # replicate (length ys) (PAD sp))"
    by (simp add: length_mask_row)
next
  fix j assume "j < length (mask_row sp (xs @ EOS sp # ys))"
  then have j: "j < length (xs @ EOS sp # ys)" by (simp add: length_mask_row)
  let ?row = "xs @ EOS sp # ys"
  have before: "(\<exists>e<j. ?row ! e = EOS sp) = False" if "j \<le> length xs"
  proof (rule iffI)
    assume False
    then show "\<exists>e<j. ?row ! e = EOS sp" by simp
  next
    assume "\<exists>e<j. ?row ! e = EOS sp"
    then obtain e where "e < j" and e: "?row ! e = EOS sp" by blast
    then have el: "e < length xs" using that by simp
    then have "xs ! e = EOS sp" using e by (simp add: nth_append)
    moreover have "xs ! e \<in> set xs" using el by simp
    ultimately show False using assms by simp
  qed
  have keep: "mask_row sp ?row ! j = ?row ! j" if "j \<le> length xs"
    unfolding mask_row_nth [OF j, of sp] before [OF that] by (simp only: if_False)
  consider "j < length xs" | "j = length xs" | "length xs < j" by linarith
  then show "mask_row sp ?row ! j = (xs @ EOS sp # replicate (length ys) (PAD sp)) ! j"
  proof cases
    case 1
    then show ?thesis using keep by (simp add: nth_append)
  next
    case 2
    then show ?thesis using keep by (simp add: nth_append)
  next
    case 3
    then have "\<exists>e<j. ?row ! e = EOS sp" by (intro exI [of _ "length xs"]) simp
    then have "mask_row sp ?row ! j = PAD sp" using j by (simp add: mask_row_nth)
    moreover have "(xs @ EOS sp # replicate (length ys) (PAD sp)) ! j = PAD sp"
      using 3 j by (simp add: nth_append nth_Cons')
    ultimately show ?thesis by simp
  qed
qed

lemma mask_row_post_eos:
  assumes "j < k" and "k < length row" and "mask_row sp row ! j = EOS sp"
  shows "mask_row sp row ! k = PAD sp"
proof (cases "\<exists>e<j. row ! e = EOS sp")
  case True
  then have "\<exists>e<k. row ! e = EOS sp" using assms(1) by (meson order_less_trans)
  then show ?thesis using assms(2) by (simp add: mask_row_nth)
next
  case False
  have jl: "j < length row" using assms(1,2) by simp
  have "mask_row sp row ! j = row ! j"
    using mask_row_nth [OF jl, of sp] False by auto
  then have "row ! j = EOS sp" using assms(3) by simp
  then have "\<exists>e<k. row ! e = EOS sp" using assms(1) by blast
  then show ?thesis using assms(2) by (simp add: mask_row_nth)
qed

lemma slice_nth:
  assumes "j < length (slice start stop xs)"
  shows "slice start stop xs ! j = xs ! (start + j)" and "start + j < length xs"
proof -
  have "j < min (length xs) stop - start" using assms by (simp add: slice_def)
  then have j: "start + j < min (length xs) stop" by linarith
  then show "start + j < length xs" by simp
  have "start \<le> length (take stop xs)" using j by simp
  then have "drop start (take stop xs) ! j = take stop xs ! (start + j)" by simp
  also have "\<dots> = xs ! (start + j)" using j by simp
  finally show "slice start stop xs ! j = xs ! (start + j)" by (simp add: slice_def)
qed

lemma output_tokens_post_eos:
  assumes i: "i < length (output_tokens env echo total_steps final)"
    and jk: "j < k" "k < length (output_tokens env echo total_steps final ! i)"
    and eos: "output_tokens env echo total_steps final ! i ! j = EOS (special_tokens env)"
  shows "output_tokens env echo total_steps final ! i ! k = PAD (special_tokens env)"
proof -
  let ?sp = "special_tokens env"
  let ?a = "start_idx echo (num_input_tokens final ! i)"
  let ?m = "mask_row ?sp (token_buffer final ! i)"
  have i': "i < length (token_buffer final)" "i < length (num_input_tokens final)"
    using i by (simp_all add: length_output_tokens)
  have o: "output_tokens env echo total_steps final ! i = slice ?a total_steps ?m"
    by (rule output_tokens_nth [OF i'])
  have k: "slice ?a total_steps ?m ! k = ?m ! (?a + k)" "?a + k < length ?m"
    using jk(2) unfolding o by (rule slice_nth)+
  have j: "slice ?a total_steps ?m ! j = ?m ! (?a + j)"
    using jk unfolding o by (intro slice_nth) simp
  have "?m ! (?a + k) = PAD ?sp"
    using mask_row_post_eos [of "?a + j" "?a + k" "token_buffer final ! i" ?sp]
      jk(1) k(2) eos unfolding o j by (simp add: length_mask_row)
  then show ?thesis unfolding o k(1) .
qed

lemma call_result_tokens:
  assumes "call env input_strings total_generation_steps echo return_logits forbidden_tokens
             sampling = (ev, Inr (out, r))"
  shows "\<exists>total_steps final. tokens_out out = output_tokens env echo total_steps final"
  using assms unfolding call_def Let_def output_tokens_def
  by (auto split: prod.splits sum.splits if_splits) (rule exI, rule exI, rule refl)+


lemma upt_3_6: "[3..<6] = [3, 4, 5 :: nat]"
  by (simp add: upt_conv_Cons)

text \<open>
  Claim C9. One prompt whose tokenized form is \<open>[BOS, 72, 101]\<close>, three generation
  steps, no forbidden tokens, no echo, any model, and a sampling method that returns
  id 5 whatever it is given. The special ids are those of the tokenizer, and the EOS id
  is none of the ids of the example (BOS, 72, 101 and 5). Then the loop runs exactly six
  steps, the done flag is false in all seven states, the first two steps leave the
  buffer as it was (prompt replay), the final buffer is \<open>[BOS, 72, 101, 5, 5, 5, 5]\<close>
  and the call returns the tokens \<open>[5, 5, 5]\<close>.
\<close>

theorem example_constant_policy:
  assumes enc: "encode env s = [72, 101]"
    and pol: "\<forall>logits key. sampling logits key = [[5]]"
    and eos: "EOS (special_tokens env) \<notin> {BOS (special_tokens env), 72, 101, 5}"
  shows "\<exists>ev lg r st0.
           call env [s] 3 False return_logits None sampling
             = (ev, Inr (\<lparr>text_out = [decode env [5, 5, 5]], logits_out = lg,
                          tokens_out = [[5, 5, 5]]\<rparr>, r))
         \<and> init_sample_state env [tokenize env s] 6 return_logits None = Inr st0
         \<and> sample_fn env sampling st0 = (sample_step env sampling ^^ 6) st0
         \<and> (\<forall>k\<le>6. done_flags ((sample_step env sampling ^^ k) st0) = [False])
         \<and> token_buffer ((sample_step env sampling ^^ 2) st0)
             = [[BOS (special_tokens env), 72, 101, PAD (special_tokens env),
                 PAD (special_tokens env), PAD (special_tokens env), PAD (special_tokens env)]]
         \<and> token_buffer (sample_fn env sampling st0)
             = [[BOS (special_tokens env), 72, 101, 5, 5, 5, 5]]"
proof -
  let ?sp = "special_tokens env"
  let ?S = "sample_step env sampling"
  let ?row0 = "[BOS ?sp, 72, 101, PAD ?sp, PAD ?sp, PAD ?sp, PAD ?sp]"
  obtain st0 where init: "init_sample_state env [tokenize env s] 6 return_logits None = Inr st0"
    and v0: "token_view st0 = (0, [?row0], [3], [False], 6)"
    using example_init [OF enc] by blast
  have e: "EOS ?sp \<noteq> 72" "EOS ?sp \<noteq> 101" "EOS ?sp \<noteq> 5" "EOS ?sp \<noteq> BOS ?sp"
    using eos by auto
  have cand: "sampled_candidates env sampling st ! 0 = 5" for st
    by (simp add: sampled_candidates_def pol)
  define s1 where "s1 = ?S st0"
  define s2 where "s2 = ?S s1"
  define s3 where "s3 = ?S s2"
  define s4 where "s4 = ?S s3"
  define s5 where "s5 = ?S s4"
  define s6 where "s6 = ?S s5"
  have v1: "token_view s1 = (1, [?row0], [3], [False], 6)"
    unfolding s1_def by (rule example_replay(1) [OF v0 e(1,2)])
  have v2: "token_view s2 = (2, [?row0], [3], [False], 6)"
    unfolding s2_def s1_def by (rule example_replay(2) [OF v0 e(1,2)])
  have v3: "token_view s3 = (3, [[BOS ?sp, 72, 101, 5, PAD ?sp, PAD ?sp, PAD ?sp]], [3], [False], 6)"
    unfolding s3_def using token_view_step [OF v2, of 5 env sampling] e cand by simp
  have v4: "token_view s4 = (4, [[BOS ?sp, 72, 101, 5, 5, PAD ?sp, PAD ?sp]], [3], [False], 6)"
    unfolding s4_def using token_view_step [OF v3, of 5 env sampling] e cand by simp
  have v5: "token_view s5 = (5, [[BOS ?sp, 72, 101, 5, 5, 5, PAD ?sp]], [3], [False], 6)"
    unfolding s5_def using token_view_step [OF v4, of 5 env sampling] e cand by simp
  have v6: "token_view s6 = (6, [[BOS ?sp, 72, 101, 5, 5, 5, 5]], [3], [False], 6)"
    unfolding s6_def using token_view_step [OF v5, of 5 env sampling] e cand by simp
  have pw: "(?S ^^ 0) st0 = st0" "(?S ^^ 1) st0 = s1" "(?S ^^ 2) st0 = s2" "(?S ^^ 3) st0 = s3"
      "(?S ^^ 4) st0 = s4" "(?S ^^ 5) st0 = s5" "(?S ^^ 6) st0 = s6"
    unfolding s1_def s2_def s3_def s4_def s5_def s6_def by (simp_all add: numeral_eq_Suc)
  have cases: "k = 0 \<or> k = 1 \<or> k = 2 \<or> k = 3 \<or> k = 4 \<or> k = 5 \<or> k = 6" if "k \<le> 6"
    for k :: nat
    using that by linarith
  have dn: "done_flags st = [b]" if "token_view st = (d, buf, ns, [b], t)" for st d buf ns b t
    using that by (simp add: token_view_def)
  have done_all: "\<forall>k\<le>6. done_flags ((?S ^^ k) st0) = [False]"
  proof (intro allI impI)
    fix k :: nat assume "k \<le> 6"
    from cases [OF this] show "done_flags ((?S ^^ k) st0) = [False]"
      using dn [OF v0] dn [OF v1] dn [OF v2] dn [OF v3] dn [OF v4] dn [OF v5] dn [OF v6] pw
      by (elim disjE) simp_all
  qed
  have run: "\<forall>j<6. cond_fn ((?S ^^ j) st0)"
  proof (intro allI impI)
    fix j :: nat assume "j < 6"
    then have "j = 0 \<or> j = 1 \<or> j = 2 \<or> j = 3 \<or> j = 4 \<or> j = 5" by linarith
    then show "cond_fn ((?S ^^ j) st0)"
      using cond_fn_token_view [OF v0] cond_fn_token_view [OF v1] cond_fn_token_view [OF v2]
        cond_fn_token_view [OF v3] cond_fn_token_view [OF v4] cond_fn_token_view [OF v5] pw
      by (elim disjE) simp_all
  qed
  have stop: "\<not> cond_fn ((?S ^^ 6) st0)"
    using cond_fn_token_view [OF v6] pw by simp
  have fin: "sample_fn env sampling st0 = (?S ^^ 6) st0"
    by (rule sample_fn_exact [OF run stop])
  then have fin6: "sample_fn env sampling st0 = s6" using pw by simp
  have buf6: "token_buffer s6 = [[BOS ?sp, 72, 101, 5, 5, 5, 5]]"
    using v6 by (simp add: token_view_def)
  have buf2: "token_buffer s2 = [?row0]" using v2 by (simp add: token_view_def)
  have "EOS ?sp \<notin> set [BOS ?sp, 72, 101, 5, 5, 5, 5]" using e by auto
  then have m: "mask_row ?sp [BOS ?sp, 72, 101, 5, 5, 5, 5] = [BOS ?sp, 72, 101, 5, 5, 5, 5]"
    by (rule mask_row_no_eos)
  have out: "output_tokens env False 6 (sample_fn env sampling st0) = [[5, 5, 5]]"
    unfolding fin6 using example_output [OF v6, of env] by (simp add: m upt_3_6)
  obtain lg where c: "call env [s] 3 False return_logits None sampling
           = ([Tokenize s, InitSampleState, SampleFn]
                @ map Decode (output_tokens env False 6 (sample_fn env sampling st0)),
              Inr (\<lparr>text_out = map (decode env)
                        (output_tokens env False 6 (sample_fn env sampling st0)),
                     logits_out = lg,
                     tokens_out = output_tokens env False 6 (sample_fn env sampling st0)\<rparr>,
                   rng (sample_fn env sampling st0)))"
    using example_call [OF enc init] by blast
  have c': "call env [s] 3 False return_logits None sampling
           = ([Tokenize s, InitSampleState, SampleFn, Decode [5, 5, 5]],
              Inr (\<lparr>text_out = [decode env [5, 5, 5]], logits_out = lg,
                     tokens_out = [[5, 5, 5]]\<rparr>, rng (sample_fn env sampling st0)))"
    using c unfolding out by simp
  have b2: "token_buffer ((?S ^^ 2) st0) = [?row0]" using buf2 pw by simp
  have b6: "token_buffer (sample_fn env sampling st0) = [[BOS ?sp, 72, 101, 5, 5, 5, 5]]"
    using buf6 fin6 by simp
  from c' init fin done_all b2 b6 show ?thesis by blast
qed


theorem example_constant_policy_witness:
  "\<exists>ev lg r.
      call (byte_sampler example_special_tokens) [''He''] 3 False False None
        (\<lambda>logits key. [[5]])
      = (ev, Inr (\<lparr>text_out = [decode (byte_sampler example_special_tokens) [5, 5, 5]],
                    logits_out = lg, tokens_out = [[5, 5, 5]]\<rparr>, r))"
proof -
  let ?E = "byte_sampler example_special_tokens"
  have enc: "encode ?E ''He'' = [72, 101]" by (simp add: byte_sampler_def)
  have pol: "\<forall>logits key :: nat. (\<lambda>logits key. [[5 :: int]]) logits key = [[5]]" by simp
  have eos: "EOS (special_tokens ?E) \<notin> {BOS (special_tokens ?E), 72, 101, 5}"
    by (simp add: byte_sampler_def example_special_tokens_def)
  from example_constant_policy [OF enc pol eos, of False]
  show ?thesis by blast
qed

text \<open>
  Claim C9 as stated puts one condition on the EOS id, that it is not 5. With a tokenizer
  whose BOS and EOS ids are both 2, the prompt is \<open>[2, 72, 101]\<close>, the done flag stays
  false for the six steps, and the masking, which scans the row from slot 0, turns
  everything after the BOS into PAD: the call returns \<open>[0, 0, 0]\<close>. With a tokenizer
  whose EOS id is 72, the first replay step sets the done flag, the loop stops after one
  step, and the call returns \<open>[0, 0, 0]\<close> again.
\<close>

theorem example_constant_policy_counterexample:
  "tokenize (byte_sampler \<lparr>PAD = 0, EOS = 2, BOS = 2\<rparr>) ''He'' = [2, 72, 101]
   \<and> snd (call (byte_sampler \<lparr>PAD = 0, EOS = 2, BOS = 2\<rparr>) [''He''] 3 False False None
            (\<lambda>logits key. [[5]]))
       = Inr (\<lparr>text_out = [[CHR 0x00, CHR 0x00, CHR 0x00]], logits_out = [],
               tokens_out = [[0, 0, 0]]\<rparr>, 6)
   \<and> tokenize (byte_sampler \<lparr>PAD = 0, EOS = 72, BOS = 2\<rparr>) ''He'' = [2, 72, 101]
   \<and> snd (call (byte_sampler \<lparr>PAD = 0, EOS = 72, BOS = 2\<rparr>) [''He''] 3 False False None
            (\<lambda>logits key. [[5]]))
       = Inr (\<lparr>text_out = [[CHR 0x00, CHR 0x00, CHR 0x00]], logits_out = [],
               tokens_out = [[0, 0, 0]]\<rparr>, 1)
   \<and> done_flags (sample_step (byte_sampler \<lparr>PAD = 0, EOS = 72, BOS = 2\<rparr>)
        (\<lambda>logits key. [[5]]) example_state) = [True]"
  by code_simp


text \<open>
  Claim C2. In every token list that the call returns, a token that comes after an EOS
  is PAD. In the setting of the example (one prompt tokenized to \<open>[BOS, 72, 101]\<close>,
  three generation steps, no echo, no forbidden tokens), when the sampling method
  proposes \<open>tok1\<close> at the first generation step and EOS at the second, and that EOS is
  the first of the row (the EOS id is none of BOS, 72, 101 and \<open>tok1\<close>), the loop stops
  after four steps with the sequence done and the call returns \<open>[tok1, EOS, PAD]\<close>.
\<close>

theorem post_eos_masking:
  assumes c: "call env input_strings total_generation_steps echo return_logits
                forbidden_tokens sampling = (ev, Inr (out, r))"
  shows "(\<forall>i j k. i < length (tokens_out out) \<longrightarrow> j < k
            \<longrightarrow> k < length (tokens_out out ! i)
            \<longrightarrow> tokens_out out ! i ! j = EOS (special_tokens env)
            \<longrightarrow> tokens_out out ! i ! k = PAD (special_tokens env))
       \<and> (\<forall>s tok1 st0.
             input_strings = [s] \<longrightarrow> total_generation_steps = 3 \<longrightarrow> \<not> echo
            \<longrightarrow> forbidden_tokens = None \<longrightarrow> encode env s = [72, 101]
            \<longrightarrow> init_sample_state env [tokenize env s] 6 return_logits None = Inr st0
            \<longrightarrow> sampled_candidates env sampling ((sample_step env sampling ^^ 2) st0) = [tok1]
            \<longrightarrow> sampled_candidates env sampling ((sample_step env sampling ^^ 3) st0)
                  = [EOS (special_tokens env)]
            \<longrightarrow> EOS (special_tokens env) \<notin> {BOS (special_tokens env), 72, 101, tok1}
            \<longrightarrow> sample_fn env sampling st0 = (sample_step env sampling ^^ 4) st0
                \<and> done_flags (sample_fn env sampling st0) = [True]
                \<and> tokens_out out
                    = [[tok1, EOS (special_tokens env), PAD (special_tokens env)]])"
proof -
  have general: "\<forall>i j k. i < length (tokens_out out) \<longrightarrow> j < k
            \<longrightarrow> k < length (tokens_out out ! i)
            \<longrightarrow> tokens_out out ! i ! j = EOS (special_tokens env)
            \<longrightarrow> tokens_out out ! i ! k = PAD (special_tokens env)"
  proof (intro allI impI)
  fix i j k
  assume a: "i < length (tokens_out out)" "j < k" "k < length (tokens_out out ! i)"
    "tokens_out out ! i ! j = EOS (special_tokens env)"
  obtain total_steps final where "tokens_out out = output_tokens env echo total_steps final"
    using call_result_tokens [OF c] by blast
  then show "tokens_out out ! i ! k = PAD (special_tokens env)"
    using output_tokens_post_eos [of i env echo total_steps final j k] a by simp
  qed
  have example: "\<forall>s tok1 st0.
             input_strings = [s] \<longrightarrow> total_generation_steps = 3 \<longrightarrow> \<not> echo
            \<longrightarrow> forbidden_tokens = None \<longrightarrow> encode env s = [72, 101]
            \<longrightarrow> init_sample_state env [tokenize env s] 6 return_logits None = Inr st0
            \<longrightarrow> sampled_candidates env sampling ((sample_step env sampling ^^ 2) st0) = [tok1]
            \<longrightarrow> sampled_candidates env sampling ((sample_step env sampling ^^ 3) st0)
                  = [EOS (special_tokens env)]
            \<longrightarrow> EOS (special_tokens env) \<notin> {BOS (special_tokens env), 72, 101, tok1}
            \<longrightarrow> sample_fn env sampling st0 = (sample_step env sampling ^^ 4) st0
                \<and> done_flags (sample_fn env sampling st0) = [True]
                \<and> tokens_out out
                    = [[tok1, EOS (special_tokens env), PAD (special_tokens env)]]"
  proof (intro allI impI)
  fix s tok1 st0
  let ?sp = "special_tokens env"
  let ?S = "sample_step env sampling"
  let ?row0 = "[BOS ?sp, 72, 101, PAD ?sp, PAD ?sp, PAD ?sp, PAD ?sp]"
  assume given: "input_strings = [s]" "total_generation_steps = 3" "\<not> echo"
      "forbidden_tokens = None"
    and enc: "encode env s = [72, 101]"
    and init: "init_sample_state env [tokenize env s] 6 return_logits None = Inr st0"
    and c2: "sampled_candidates env sampling ((?S ^^ 2) st0) = [tok1]"
    and c3: "sampled_candidates env sampling ((?S ^^ 3) st0) = [EOS ?sp]"
    and eos: "EOS ?sp \<notin> {BOS ?sp, 72, 101, tok1}"
  have e: "EOS ?sp \<noteq> 72" "EOS ?sp \<noteq> 101" "EOS ?sp \<noteq> tok1" "EOS ?sp \<noteq> BOS ?sp"
    using eos by auto
  have v0: "token_view st0 = (0, [?row0], [3], [False], 6)"
    using example_init [OF enc, of return_logits] init by auto
  define s1 where "s1 = ?S st0"
  define s2 where "s2 = ?S s1"
  define s3 where "s3 = ?S s2"
  define s4 where "s4 = ?S s3"
  have pw: "(?S ^^ 0) st0 = st0" "(?S ^^ 1) st0 = s1" "(?S ^^ 2) st0 = s2" "(?S ^^ 3) st0 = s3"
      "(?S ^^ 4) st0 = s4"
    unfolding s1_def s2_def s3_def s4_def by (simp_all add: numeral_eq_Suc)
  have cand2: "sampled_candidates env sampling s2 ! 0 = tok1" using c2 pw by simp
  have cand3: "sampled_candidates env sampling s3 ! 0 = EOS ?sp" using c3 pw by simp
  have v1: "token_view s1 = (1, [?row0], [3], [False], 6)"
    unfolding s1_def by (rule example_replay(1) [OF v0 e(1,2)])
  have v2: "token_view s2 = (2, [?row0], [3], [False], 6)"
    unfolding s2_def s1_def by (rule example_replay(2) [OF v0 e(1,2)])
  have v3: "token_view s3
              = (3, [[BOS ?sp, 72, 101, tok1, PAD ?sp, PAD ?sp, PAD ?sp]], [3], [False], 6)"
    unfolding s3_def using token_view_step [OF v2, of tok1 env sampling] e cand2 by simp
  have v4: "token_view s4
              = (4, [[BOS ?sp, 72, 101, tok1, EOS ?sp, PAD ?sp, PAD ?sp]], [3], [True], 6)"
    unfolding s4_def using token_view_step [OF v3, of "EOS ?sp" env sampling] cand3 by simp
  have run: "\<forall>j<4. cond_fn ((?S ^^ j) st0)"
  proof (intro allI impI)
    fix j :: nat assume "j < 4"
    then have "j = 0 \<or> j = 1 \<or> j = 2 \<or> j = 3" by linarith
    then show "cond_fn ((?S ^^ j) st0)"
      using cond_fn_token_view [OF v0] cond_fn_token_view [OF v1] cond_fn_token_view [OF v2]
        cond_fn_token_view [OF v3] pw
      by (elim disjE) simp_all
  qed
  have stop: "\<not> cond_fn ((?S ^^ 4) st0)"
    using cond_fn_token_view [OF v4] pw by simp
  have fin: "sample_fn env sampling st0 = (?S ^^ 4) st0"
    by (rule sample_fn_exact [OF run stop])
  then have fin4: "sample_fn env sampling st0 = s4" using pw by simp
  have dn: "done_flags (sample_fn env sampling st0) = [True]"
    unfolding fin4 using v4 by (simp add: token_view_def)
  have "EOS ?sp \<notin> set [BOS ?sp, 72, 101, tok1]" using e by auto
  from mask_row_first_eos [OF this, of "[PAD ?sp, PAD ?sp]"]
  have m: "mask_row ?sp [BOS ?sp, 72, 101, tok1, EOS ?sp, PAD ?sp, PAD ?sp]
             = [BOS ?sp, 72, 101, tok1, EOS ?sp, PAD ?sp, PAD ?sp]"
    by (simp add: numeral_2_eq_2)
  have o: "output_tokens env False 6 (sample_fn env sampling st0) = [[tok1, EOS ?sp, PAD ?sp]]"
    unfolding fin4 using example_output [OF v4, of env] by (simp add: m upt_3_6)
  obtain lg where "call env [s] 3 False return_logits None sampling
           = ([Tokenize s, InitSampleState, SampleFn]
                @ map Decode (output_tokens env False 6 (sample_fn env sampling st0)),
              Inr (\<lparr>text_out = map (decode env)
                        (output_tokens env False 6 (sample_fn env sampling st0)),
                     logits_out = lg,
                     tokens_out = output_tokens env False 6 (sample_fn env sampling st0)\<rparr>,
                   rng (sample_fn env sampling st0)))"
    using example_call [OF enc init] by blast
  then have "tokens_out out = output_tokens env False 6 (sample_fn env sampling st0)"
    using c given by auto
  then have t: "tokens_out out = [[tok1, EOS ?sp, PAD ?sp]]" using o by simp
  from fin dn t
  show "sample_fn env sampling st0 = (?S ^^ 4) st0
      \<and> done_flags (sample_fn env sampling st0) = [True]
      \<and> tokens_out out = [[tok1, EOS ?sp, PAD ?sp]]"
    by simp
  qed
  from general example show ?thesis by (rule conjI)
qed


lemma example_scripted_call:
  "call (byte_sampler example_special_tokens) [''He''] 3 False False None
     (scripted_sampling (\<lambda>key. if key = 3 then 1 else 7))
   = ([Tokenize ''He'', InitSampleState, SampleFn, Decode [7, 1, 0]],
      Inr (\<lparr>text_out = [[CHR 0x07, CHR 0x01, CHR 0x00]], logits_out = [],
             tokens_out = [[7, 1, 0]]\<rparr>, 4))"
  by code_simp

lemma example_scripted_candidates:
  "sampled_candidates (byte_sampler example_special_tokens)
     (scripted_sampling (\<lambda>key. if key = 3 then 1 else 7))
     ((sample_step (byte_sampler example_special_tokens)
         (scripted_sampling (\<lambda>key. if key = 3 then 1 else 7)) ^^ 2) example_state) = [7]"
  "sampled_candidates (byte_sampler example_special_tokens)
     (scripted_sampling (\<lambda>key. if key = 3 then 1 else 7))
     ((sample_step (byte_sampler example_special_tokens)
         (scripted_sampling (\<lambda>key. if key = 3 then 1 else 7)) ^^ 3) example_state) = [1]"
  by code_simp+

theorem post_eos_masking_witness:
  "\<exists>ev out r.
      call (byte_sampler example_special_tokens) [''He''] 3 False False None
        (scripted_sampling (\<lambda>key. if key = 3 then 1 else 7)) = (ev, Inr (out, r))
      \<and> tokens_out out ! 0 ! 1 = 1
      \<and> tokens_out out ! 0 ! 2 = 0
      \<and> tokens_out out = [[7, 1, 0]]"
proof -
  let ?E = "byte_sampler example_special_tokens"
  let ?P = "scripted_sampling (\<lambda>key. if key = 3 then 1 else 7)"
  let ?out = "\<lparr>text_out = [[CHR 0x07, CHR 0x01, CHR 0x00]], logits_out = [],
               tokens_out = [[7, 1, 0]]\<rparr>"
  note T = post_eos_masking [OF example_scripted_call]
  have sp: "EOS (special_tokens ?E) = 1" "PAD (special_tokens ?E) = 0"
      "BOS (special_tokens ?E) = 2"
    by (simp_all add: byte_sampler_def example_special_tokens_def)
  have "tokens_out ?out ! 0 ! 2 = PAD (special_tokens ?E)"
    using T [THEN conjunct1, rule_format, of 0 1 2] by (simp add: sp)
  then have a: "tokens_out ?out ! 0 ! 2 = 0" by (simp add: sp)
  have enc: "encode ?E ''He'' = [72, 101]" by (simp add: byte_sampler_def)
  have init: "init_sample_state ?E [tokenize ?E ''He''] 6 False None = Inr example_state"
    using example_state_init by (simp add: tokenize_def byte_sampler_def example_special_tokens_def)
  have eos: "EOS (special_tokens ?E) \<notin> {BOS (special_tokens ?E), 72, 101, 7}"
    by (simp add: sp)
  have c3: "sampled_candidates ?E ?P ((sample_step ?E ?P ^^ 3) example_state)
              = [EOS (special_tokens ?E)]"
    using example_scripted_candidates(2) by (simp add: sp)
  have b: "tokens_out ?out = [[7, EOS (special_tokens ?E), PAD (special_tokens ?E)]]"
    using T [THEN conjunct2, rule_format, of "''He''" example_state 7]
      enc init example_scripted_candidates(1) c3 eos
    by simp
  show ?thesis
    using example_scripted_call a b by (intro exI [of _ ?out] exI conjI) (simp_all add: sp)
qed

text \<open>
  Claim C2 as stated puts no condition on the ids of the prompt. With a tokenizer whose
  BOS and EOS ids are both 2, the prompt is \<open>[2, 72, 101]\<close>; the sampling method
  proposes 7 at the first generation step and the EOS id at the second; the loop stops
  after four steps with the buffer \<open>[2, 72, 101, 7, 2, 0, 0]\<close>. The masking finds
  the first EOS in slot 0, the BOS, and turns every later slot into PAD: the call returns
  \<open>[0, 0, 0]\<close>, not \<open>[7, 2, 0]\<close>.
\<close>

theorem post_eos_masking_counterexample:
  "tokenize (byte_sampler \<lparr>PAD = 0, EOS = 2, BOS = 2\<rparr>) ''He'' = [2, 72, 101]
   \<and> init_sample_state (byte_sampler \<lparr>PAD = 0, EOS = 2, BOS = 2\<rparr>) [[2, 72, 101]] 6 False None
       = Inr example_state
   \<and> sampled_candidates (byte_sampler \<lparr>PAD = 0, EOS = 2, BOS = 2\<rparr>)
        (scripted_sampling (\<lambda>key. if key = 3 then 2 else 7))
        ((sample_step (byte_sampler \<lparr>PAD = 0, EOS = 2, BOS = 2\<rparr>)
            (scripted_sampling (\<lambda>key. if key = 3 then 2 else 7)) ^^ 2) example_state) = [7]
   \<and> sampled_candidates (byte_sampler \<lparr>PAD = 0, EOS = 2, BOS = 2\<rparr>)
        (scripted_sampling (\<lambda>key. if key = 3 then 2 else 7))
        ((sample_step (byte_sampler \<lparr>PAD = 0, EOS = 2, BOS = 2\<rparr>)
            (scripted_sampling (\<lambda>key. if key = 3 then 2 else 7)) ^^ 3) example_state)
       = [EOS \<lparr>PAD = 0, EOS = 2, BOS = 2\<rparr>]
   \<and> token_buffer (sample_fn (byte_sampler \<lparr>PAD = 0, EOS = 2, BOS = 2\<rparr>)
        (scripted_sampling (\<lambda>key. if key = 3 then 2 else 7)) example_state)
       = [[2, 72, 101, 7, 2, 0, 0]]
   \<and> snd (call (byte_sampler \<lparr>PAD = 0, EOS = 2, BOS = 2\<rparr>) [''He''] 3 False False None
            (scripted_sampling (\<lambda>key. if key = 3 then 2 else 7)))
       = Inr (\<lparr>text_out = [[CHR 0x00, CHR 0x00, CHR 0x00]], logits_out = [],
               tokens_out = [[0, 0, 0]]\<rparr>, 4)"
  by code_simp

end
